theory Spec2Isabelle
  imports Complex_Main
begin

section \<open>JavaScript values and built-ins used by the sources\<close>

text \<open>
  The sources are \<^verbatim>\<open>utils/esbuild.ts\<close> (the prebundling plugin) and \<^verbatim>\<open>preprocess.js\<close>
  (the style and script preprocessors). JavaScript numbers are modelled as \<^typ>\<open>real\<close>:
  the comparisons and the differences of clock readings are those of the reals, and the one
  running sum of the program goes through a parameter for the addition of doubles. Strings
  are lists of code units, a thrown exception is a value of \<open>js_error\<close> on the left of a
  sum, and \<^verbatim>\<open>undefined\<close> is \<open>None\<close>.
\<close>

datatype js_error = JsError (err_name: string) (err_message: string)

definition TypeError :: "string \<Rightarrow> js_error" where
  "TypeError msg = JsError ''TypeError'' msg"

text \<open>\<^verbatim>\<open>Array.prototype.findIndex\<close>: the index of the first match, \<open>-1\<close> when there is none.\<close>

fun findIndex_from :: "('a \<Rightarrow> bool) \<Rightarrow> 'a list \<Rightarrow> int \<Rightarrow> int" where
  "findIndex_from p [] i = -1"
| "findIndex_from p (x # xs) i = (if p x then i else findIndex_from p xs (i + 1))"

definition findIndex :: "('a \<Rightarrow> bool) \<Rightarrow> 'a list \<Rightarrow> int" where
  "findIndex p xs = findIndex_from p xs 0"

text \<open>\<^verbatim>\<open>xs[i]\<close>: \<^verbatim>\<open>undefined\<close> outside \<open>0 .. length - 1\<close> (also at \<open>-1\<close>).\<close>

definition at_index :: "'a list \<Rightarrow> int \<Rightarrow> 'a option" where
  "at_index xs i = (if 0 \<le> i \<and> i < int (length xs) then Some (xs ! nat i) else None)"

text \<open>
  \<^verbatim>\<open>padStart(n, ' ')\<close> and \<^verbatim>\<open>padEnd(n, ' ')\<close>: a string already \<open>n\<close> long or longer is
  returned as it is (the truncating subtraction of \<^typ>\<open>nat\<close> gives no padding then).
\<close>

definition padStart :: "nat \<Rightarrow> string \<Rightarrow> string" where
  "padStart n s = replicate (n - length s) CHR '' '' @ s"

definition padEnd :: "nat \<Rightarrow> string \<Rightarrow> string" where
  "padEnd n s = s @ replicate (n - length s) CHR '' ''"

fun join :: "string \<Rightarrow> string list \<Rightarrow> string" where
  "join sep [] = []"
| "join sep [x] = x"
| "join sep (x # y # ys) = x @ sep @ join sep (y # ys)"

definition startsWith :: "string \<Rightarrow> string \<Rightarrow> bool" where
  "startsWith s p = (take (length p) s = p)"

definition endsWith :: "string \<Rightarrow> string \<Rightarrow> bool" where
  "endsWith s p = (length p \<le> length s \<and> drop (length s - length p) s = p)"

text \<open>The decimal digits of a natural number, as the template literal \<^verbatim>\<open>`${n}`\<close> prints a count.\<close>

definition digit :: "nat \<Rightarrow> char" where
  "digit d = ''0123456789'' ! d"

function show_nat :: "nat \<Rightarrow> string" where
  "show_nat n = (if n < 10 then [digit n] else show_nat (n div 10) @ [digit (n mod 10)])"
  by pat_completeness auto
termination
  by (relation "measure (\<lambda>n. n)") auto

declare show_nat.simps [simp del]

definition show_bool :: "bool \<Rightarrow> string" where
  "show_bool b = (if b then ''true'' else ''false'')"

section \<open>Timing: \<^verbatim>\<open>TimeStamp\<close>, \<^verbatim>\<open>FileStat\<close>, \<^verbatim>\<open>duration\<close>, \<^verbatim>\<open>humanDuration\<close>\<close>

record TimeStamp =
  event :: string
  ts :: real

record FileStat =
  filename :: string
  packagename :: "string option"
  timestamps :: "TimeStamp list"

record PackageStats =
  name :: "string option"
  count :: nat
  compileTime :: real

text \<open>
  \<^verbatim>\<open>duration(timestamps, to, from?)\<close>. The test \<^verbatim>\<open>from ? ... : toIndex - 1\<close> is on the
  truthiness of \<open>from\<close>: an absent and an empty \<open>from\<close> both take the entry before
  \<open>toIndex\<close>. Reading \<^verbatim>\<open>.ts\<close> of \<^verbatim>\<open>timestamps[i]\<close> with \<open>i\<close> out of range throws a
  \<^verbatim>\<open>TypeError\<close>.
\<close>

definition duration :: "TimeStamp list \<Rightarrow> string \<Rightarrow> string option \<Rightarrow> js_error + real" where
  "duration tss to from =
     (let toIndex = findIndex (\<lambda>t. event t = to) tss;
          fromIndex = (case from of
                         Some f \<Rightarrow> if f \<noteq> [] then findIndex (\<lambda>t. event t = f) tss else toIndex - 1
                       | None \<Rightarrow> toIndex - 1)
      in case at_index tss toIndex of
           None \<Rightarrow> Inl (TypeError ''Cannot read properties of undefined (reading ts)'')
         | Some a \<Rightarrow>
             (case at_index tss fromIndex of
                None \<Rightarrow> Inl (TypeError ''Cannot read properties of undefined (reading ts)'')
              | Some b \<Rightarrow> Inr (ts a - ts b)))"

text \<open>
  \<^verbatim>\<open>humanDuration\<close>. \<^verbatim>\<open>Number.prototype.toFixed\<close> is the language's own formatting of a
  double and is taken as a parameter.
\<close>

definition humanDuration :: "(nat \<Rightarrow> real \<Rightarrow> string) \<Rightarrow> real \<Rightarrow> string" where
  "humanDuration toFixed n =
     (if n < 100 then toFixed 1 n @ ''ms'' else toFixed 2 (n / 1000) @ ''s'')"

section \<open>Options, collaborators and the state of one plugin instance\<close>

datatype css_option = CssUnset | CssNone | CssInjected | CssExternal | CssBool bool

record CompileOptions =
  co_css :: css_option
  co_filename :: "string option"
  co_format :: "string option"
  co_generate :: "string option"
  co_sourcemap :: "string option"
  co_other :: "(string \<times> string) list"

text \<open>\<^verbatim>\<open>{...a, ...b}\<close>: the fields \<open>b\<close> sets win, its unset fields leave those of \<open>a\<close>.\<close>

definition spread :: "CompileOptions \<Rightarrow> CompileOptions \<Rightarrow> CompileOptions" where
  "spread a b =
     \<lparr>co_css = (if co_css b = CssUnset then co_css a else co_css b),
      co_filename = (case co_filename b of None \<Rightarrow> co_filename a | Some v \<Rightarrow> Some v),
      co_format = (case co_format b of None \<Rightarrow> co_format a | Some v \<Rightarrow> Some v),
      co_generate = (case co_generate b of None \<Rightarrow> co_generate a | Some v \<Rightarrow> Some v),
      co_sourcemap = (case co_sourcemap b of None \<Rightarrow> co_sourcemap a | Some v \<Rightarrow> Some v),
      co_other = [kv \<leftarrow> co_other a. fst kv \<notin> fst ` set (co_other b)] @ co_other b\<rparr>"

record Processed =
  p_code :: string
  p_map :: "string option"

record Compiled =
  js_code :: string
  js_map_url :: string

text \<open>
  \<^verbatim>\<open>ResolvedOptions\<close>, as far as the plugin reads it. \<open>preprocess\<close>, when configured, stands
  for \<^verbatim>\<open>preprocess(code, options.preprocess, { filename })\<close> of \<^verbatim>\<open>svelte/compiler\<close> on the
  configured group (arguments: code, filename); \<open>dynamicCompileOptions\<close> is the hook of
  \<^verbatim>\<open>options.experimental\<close> (arguments: filename, code, compileOptions), whose result may be
  absent. Both may throw.
\<close>

record ResolvedOptions =
  extensions :: "string list option"
  compilerOptions :: CompileOptions
  preprocess :: "(string \<Rightarrow> string \<Rightarrow> js_error + Processed) option"
  dynamicCompileOptions ::
    "(string \<Rightarrow> string \<Rightarrow> CompileOptions \<Rightarrow> js_error + CompileOptions option) option"

text \<open>
  What the plugin calls and does not define: the clock (\<open>perf_now n\<close> is what the
  \<open>n\<close>-th call of \<^verbatim>\<open>performance.now()\<close> returns), the file system, the Svelte compiler,
  the error formatter, \<^verbatim>\<open>atLeastSvelte('3.53.0')\<close>, the debug switch of the logger,
  \<^verbatim>\<open>JSON.stringify\<close>, \<^verbatim>\<open>toFixed\<close>, \<^verbatim>\<open>findClosestPkgJsonPath\<close> of vitefu, and
  \<open>manifest_name p\<close> for \<^verbatim>\<open>JSON.parse(readFileSync(p, 'utf-8')).name\<close>, which throws when the
  manifest cannot be read or parsed and is \<^verbatim>\<open>undefined\<close> for a manifest without a name.
  \<open>double_add a b\<close> is the sum of two doubles as \<^verbatim>\<open>+=\<close> computes it, rounded to a double: the
  total of a group is built with it, one addition per stat, so that what it is does not
  rest on exact addition.
\<close>

record env =
  perf_now :: "nat \<Rightarrow> real"
  readFileSync :: "string \<Rightarrow> js_error + string"
  compile :: "string \<Rightarrow> CompileOptions \<Rightarrow> js_error + Compiled"
  toESBuildError :: "js_error \<Rightarrow> ResolvedOptions \<Rightarrow> string"
  isCssString :: bool
  debug_enabled :: bool
  JSON_stringify :: "CompileOptions \<Rightarrow> string"
  toFixed :: "nat \<Rightarrow> real \<Rightarrow> string"
  findClosestPkgJsonPath :: "string \<Rightarrow> string option"
  manifest_name :: "string \<Rightarrow> js_error + string option"
  double_add :: "real \<Rightarrow> real \<Rightarrow> real"

text \<open>
  What the logger received, in order. A progress line carries the clock reading at which
  it was emitted, its text and the \<open>done\<close> flag passed to \<^verbatim>\<open>log.info.progress\<close>.
\<close>

datatype log_event =
    Progress real string bool
  | Info string string
  | Debug string

text \<open>
  The variables of \<^verbatim>\<open>setup\<close> that the hooks share: \<open>stats\<close>, \<open>bundleStart\<close> (declared
  without a value, so \<^verbatim>\<open>undefined\<close> until \<^verbatim>\<open>onStart\<close> runs) and \<open>lastProgressLog\<close>;
  \<open>ticks\<close> counts the calls of \<^verbatim>\<open>performance.now()\<close> made so far and \<open>out\<close> is the log.
\<close>

record plugin_state =
  stats :: "FileStat list"
  bundleStart :: "real option"
  lastProgressLog :: real
  ticks :: nat
  out :: "log_event list"

definition progressDelay :: real where "progressDelay = 2000"
definition progressThrottle :: real where "progressThrottle = 200"

section \<open>\<^verbatim>\<open>logProgress\<close>\<close>

text \<open>
  The condition of \<^verbatim>\<open>logProgress\<close> without \<open>done\<close>:
  \<^verbatim>\<open>now - (lastProgressLog || bundleStart) > (lastProgressLog ? progressThrottle : progressDelay)\<close>.
  \<open>lastProgressLog\<close> is falsy exactly when it is \<open>0\<close>; with \<open>bundleStart\<close> undefined the
  difference is \<^verbatim>\<open>NaN\<close> and the comparison is false.
\<close>

definition progress_due :: "real \<Rightarrow> plugin_state \<Rightarrow> bool" where
  "progress_due now st =
     (if lastProgressLog st \<noteq> 0 then now - lastProgressLog st > progressThrottle
      else (case bundleStart st of
              None \<Rightarrow> False
            | Some b \<Rightarrow> now - b > progressDelay))"

definition progress_line :: "env \<Rightarrow> bool \<Rightarrow> bool \<Rightarrow> real \<Rightarrow> plugin_state \<Rightarrow> string" where
  "progress_line e ssr done now st =
     ''prebundling svelte dependencies - ssr: '' @ show_bool ssr
       @ '' files:'' @ padStart 5 (show_nat (length (stats st)))
       @ '' duration:''
       @ padStart 7 (case bundleStart st of
                       None \<Rightarrow> ''NaNs''
                     | Some b \<Rightarrow> humanDuration (toFixed e) (now - b))
       @ (if done then '' - done'' else [])"

definition logProgress :: "env \<Rightarrow> bool \<Rightarrow> bool \<Rightarrow> plugin_state \<Rightarrow> plugin_state" where
  "logProgress e ssr done st =
     (let now = perf_now e (ticks st);
          st1 = st\<lparr>ticks := Suc (ticks st)\<rparr>
      in if done \<or> progress_due now st
         then st1\<lparr>lastProgressLog := now,
                  out := out st @ [Progress now (progress_line e ssr done now st) done]\<rparr>
         else st1)"

section \<open>\<^verbatim>\<open>compileSvelte\<close>\<close>

text \<open>\<^verbatim>\<open>takeTimestamp\<close> of \<^verbatim>\<open>onLoad\<close>: reads the clock and pushes onto the load's own list.\<close>

definition takeTimestamp ::
  "env \<Rightarrow> string \<Rightarrow> TimeStamp list \<times> plugin_state \<Rightarrow> TimeStamp list \<times> plugin_state" where
  "takeTimestamp e ev = (\<lambda>(tss, st).
     (tss @ [\<lparr>event = ev, ts = perf_now e (ticks st)\<rparr>], st\<lparr>ticks := Suc (ticks st)\<rparr>))"

definition preprocess_message :: "string \<Rightarrow> js_error \<Rightarrow> js_error" where
  "preprocess_message fname err =
     JsError (err_name err)
       (''Error while preprocessing '' @ fname
          @ (if err_message err \<noteq> [] then '' - '' @ err_message err else []))"

text \<open>
  \<^verbatim>\<open>compileSvelte(options, { filename, code }, takeTimestamp, ssr)\<close>, in the order of its
  statements. First the compile options: \<open>css\<close> stays \<^verbatim>\<open>'none'\<close> or becomes the injected
  mode in the spelling of the installed compiler.
\<close>

definition base_compile_options :: "env \<Rightarrow> ResolvedOptions \<Rightarrow> string \<Rightarrow> bool \<Rightarrow> CompileOptions" where
  "base_compile_options e options fname ssr =
     (let css0 = co_css (compilerOptions options);
          css = (if css0 \<noteq> CssNone then (if isCssString e then CssInjected else CssBool True)
                 else css0)
      in (compilerOptions options)
           \<lparr>co_css := css, co_filename := Some fname, co_format := Some ''esm'',
            co_generate := Some (if ssr then ''ssr'' else ''dom'')\<rparr>)"

text \<open>
  The preprocessing step: \<open>finalCode\<close> and the compile options, with the map of the
  preprocessor installed when it gave one; its exception is rethrown with the new message.
\<close>

definition run_preprocess ::
  "ResolvedOptions \<Rightarrow> string \<Rightarrow> string \<Rightarrow> CompileOptions \<Rightarrow> js_error + string \<times> CompileOptions" where
  "run_preprocess options fname code compileOptions =
     (case preprocess options of
        None \<Rightarrow> Inr (code, compileOptions)
      | Some pp \<Rightarrow>
          (case pp code fname of
             Inl err \<Rightarrow> Inl (preprocess_message fname err)
           | Inr preprocessed \<Rightarrow>
               Inr (p_code preprocessed,
                    (case p_map preprocessed of
                       None \<Rightarrow> compileOptions
                     | Some m \<Rightarrow> compileOptions\<lparr>co_sourcemap := Some m\<rparr>))))"

text \<open>The optional hook \<^verbatim>\<open>options.experimental?.dynamicCompileOptions?.(...)\<close>.\<close>

definition run_dynamic ::
  "ResolvedOptions \<Rightarrow> string \<Rightarrow> string \<Rightarrow> CompileOptions \<Rightarrow> js_error + CompileOptions option" where
  "run_dynamic options fname finalCode compileOptions =
     (case dynamicCompileOptions options of
        None \<Rightarrow> Inr None
      | Some hook \<Rightarrow> hook fname finalCode compileOptions)"

definition log_dynamic :: "env \<Rightarrow> string \<Rightarrow> CompileOptions option \<Rightarrow> plugin_state \<Rightarrow> plugin_state" where
  "log_dynamic e fname dyn st =
     (case dyn of
        None \<Rightarrow> st
      | Some d \<Rightarrow>
          (if debug_enabled e
           then st\<lparr>out := out st @
                  [Debug (''dynamic compile options for  '' @ fname @ '': '' @ JSON_stringify e d)]\<rparr>
           else st))"

text \<open>The last three statements: the two timestamps around the compiler, and the return.\<close>

definition timed_compile ::
  "env \<Rightarrow> string \<Rightarrow> CompileOptions \<Rightarrow> TimeStamp list \<times> plugin_state
     \<Rightarrow> (js_error + string) \<times> TimeStamp list \<times> plugin_state" where
  "timed_compile e finalCode finalCompileOptions w =
     (let w1 = takeTimestamp e ''compileStart'' w
      in case compile e finalCode finalCompileOptions of
           Inl err \<Rightarrow> (Inl err, w1)
         | Inr compiled \<Rightarrow>
             (Inr (js_code compiled @ ''//# sourceMappingURL='' @ js_map_url compiled),
              takeTimestamp e ''compiled'' w1))"

text \<open>
  The result is the returned string or the exception thrown, with the load's timestamps
  and the state (clock and log) as the call leaves them.
\<close>

definition compileSvelte ::
  "env \<Rightarrow> ResolvedOptions \<Rightarrow> string \<Rightarrow> string \<Rightarrow> bool \<Rightarrow> TimeStamp list \<times> plugin_state
     \<Rightarrow> (js_error + string) \<times> TimeStamp list \<times> plugin_state" where
  "compileSvelte e options fname code ssr w =
     (case run_preprocess options fname code (base_compile_options e options fname ssr) of
        Inl err \<Rightarrow> (Inl err, w)
      | Inr (finalCode, compileOptions) \<Rightarrow>
          (case run_dynamic options fname finalCode compileOptions of
             Inl err \<Rightarrow> (Inl err, w)
           | Inr dyn \<Rightarrow>
               timed_compile e finalCode
                 (case dyn of None \<Rightarrow> compileOptions | Some d \<Rightarrow> spread compileOptions d)
                 (fst w, log_dynamic e fname dyn (snd w))))"

section \<open>The hooks: \<^verbatim>\<open>setup\<close>, \<^verbatim>\<open>onStart\<close>, \<^verbatim>\<open>onLoad\<close>\<close>

text \<open>
  \<^verbatim>\<open>setup\<close> registers nothing when the build's plugins include \<^verbatim>\<open>vite:dep-scan\<close>;
  otherwise the hooks start from an empty \<open>stats\<close>, \<open>lastProgressLog = 0\<close> and no
  \<open>bundleStart\<close>.
\<close>

definition plugin_setup :: "string list \<Rightarrow> plugin_state option" where
  "plugin_setup plugin_names =
     (if ''vite:dep-scan'' \<in> set plugin_names then None
      else Some \<lparr>stats = [], bundleStart = None, lastProgressLog = 0, ticks = 0, out = []\<rparr>)"

definition onStart :: "env \<Rightarrow> plugin_state \<Rightarrow> plugin_state" where
  "onStart e st =
     st\<lparr>stats := [], bundleStart := Some (perf_now e (ticks st)), lastProgressLog := 0,
        ticks := Suc (ticks st)\<rparr>"

text \<open>
  What \<^verbatim>\<open>onLoad\<close>'s callback gives esbuild: \<^verbatim>\<open>{ contents }\<close>, \<^verbatim>\<open>{ errors: [...] }\<close>, or
  an exception of its own (\<^verbatim>\<open>readFileSync\<close> stands outside the \<^verbatim>\<open>try\<close>). esbuild calls
  it for the paths that match \<^verbatim>\<open>svelteFilter\<close>; the filter itself is esbuild's to apply.
\<close>

datatype load_result = Contents string | Errors "string list" | Thrown js_error

definition onLoad ::
  "env \<Rightarrow> ResolvedOptions \<Rightarrow> bool \<Rightarrow> string \<Rightarrow> plugin_state \<Rightarrow> load_result \<times> plugin_state" where
  "onLoad e options ssr fname st =
     (let st1 = logProgress e ssr False st
      in case readFileSync e fname of
           Inl err \<Rightarrow> (Thrown err, st1)
         | Inr code \<Rightarrow>
             (case compileSvelte e options fname code ssr ([], st1) of
                (Inr contents, tss, st2) \<Rightarrow>
                  (Contents contents,
                   st2\<lparr>stats := stats st2 @
                          [\<lparr>filename = fname, packagename = None, timestamps = tss\<rparr>]\<rparr>)
              | (Inl err, tss, st2) \<Rightarrow> (Errors [toESBuildError e err options], st2)))"

section \<open>\<^verbatim>\<open>logStats\<close>: resolving each file's package\<close>

text \<open>
  \<^verbatim>\<open>pkgPath.replace(/package.json$/, '')\<close>: the unescaped dot of the pattern matches any
  character but a line terminator, and \<open>$\<close> the end of the string.
\<close>

definition strip_package_json :: "string \<Rightarrow> string" where
  "strip_package_json p =
     (let n = length p
      in if 12 \<le> n \<and> take 7 (drop (n - 12) p) = ''package''
            \<and> p ! (n - 5) \<noteq> CHR 0x0A \<and> p ! (n - 5) \<noteq> CHR 0x0D
            \<and> drop (n - 4) p = ''json''
         then take (n - 12) p else p)"

record Package =
  pkg_name :: "string option"
  pkg_path :: string

text \<open>
  The state of the resolution: the stats (objects of the shared array, mutated in place),
  the local \<open>packages\<close> array, the file names \<^verbatim>\<open>findClosestPkgJsonPath\<close> was called with, in
  the order of the calls, and the first rejection of a callback, if any.
\<close>

record resolve_state =
  r_stats :: "FileStat list"
  packages :: "Package list"
  lookups :: "string list"
  rejected :: "js_error option"

text \<open>
  \<^verbatim>\<open>stats.map(async (stat) => ...)\<close> calls the callback for every stat in turn, and an
  \<^verbatim>\<open>async\<close> function runs synchronously up to its first \<^verbatim>\<open>await\<close>. \<open>resolve_begin\<close> is
  that part of the callback for the stat at index \<open>i\<close>: the search of \<open>packages\<close> and,
  on a miss, the call of \<^verbatim>\<open>findClosestPkgJsonPath\<close>, whose promise the callback then awaits
  (the pending callback is kept with the value the promise resolves to). On a hit the
  callback has no \<^verbatim>\<open>await\<close> and sets the name at once.
\<close>

definition resolve_begin ::
  "env \<Rightarrow> nat \<Rightarrow> (nat \<times> string option) list \<times> resolve_state
     \<Rightarrow> (nat \<times> string option) list \<times> resolve_state" where
  "resolve_begin e i = (\<lambda>(pending, rs).
     (let stat = r_stats rs ! i
      in case find (\<lambda>p. startsWith (filename stat) (pkg_path p)) (packages rs) of
           Some pkg \<Rightarrow>
             (pending, rs\<lparr>r_stats := (r_stats rs)[i := stat\<lparr>packagename := pkg_name pkg\<rparr>]\<rparr>)
         | None \<Rightarrow>
             (pending @ [(i, findClosestPkgJsonPath e (filename stat))],
              rs\<lparr>lookups := lookups rs @ [filename stat]\<rparr>)))"

text \<open>
  \<open>resolve_resume\<close> is the callback after its \<^verbatim>\<open>await\<close>: with a (truthy) path it reads
  the manifest, pushes the package and names the stat; without one it leaves the stat as it
  is. A manifest that cannot be read or parsed rejects the callback.
\<close>

definition manifest_of :: "env \<Rightarrow> string \<Rightarrow> js_error + Package" where
  "manifest_of e pkgPath =
     (case manifest_name e pkgPath of
        Inl err \<Rightarrow> Inl err
      | Inr nm \<Rightarrow> Inr \<lparr>pkg_name = nm, pkg_path = strip_package_json pkgPath\<rparr>)"

definition resolve_resume ::
  "env \<Rightarrow> nat \<times> string option \<Rightarrow> resolve_state \<Rightarrow> resolve_state" where
  "resolve_resume e = (\<lambda>(i, pkgPath) rs.
     (case pkgPath of
        None \<Rightarrow> rs
      | Some pp \<Rightarrow>
          (if pp = [] then rs
           else (case manifest_of e pp of
                   Inl err \<Rightarrow> (case rejected rs of
                                 None \<Rightarrow> rs\<lparr>rejected := Some err\<rparr>
                               | Some _ \<Rightarrow> rs)
                 | Inr pkg \<Rightarrow>
                     rs\<lparr>packages := packages rs @ [pkg],
                        r_stats := (r_stats rs)
                          [i := (r_stats rs ! i)\<lparr>packagename := pkg_name pkg\<rparr>]\<rparr>))))"

text \<open>
  The pending callbacks resume in the order in which their lookups complete, which the
  program does not fix. \<open>pick_order cs\<close> turns any list of choices into an order: each choice
  picks one of the callbacks still pending; with no choice left they resume in the order
  they were started. Every order of completion is \<open>pick_order cs\<close> for some \<open>cs\<close>.
\<close>

fun pick_order :: "nat list \<Rightarrow> 'a list \<Rightarrow> 'a list" where
  "pick_order cs [] = []"
| "pick_order [] xs = xs"
| "pick_order (c # cs) (x # xs) =
     (let k = c mod length (x # xs)
      in (x # xs) ! k # pick_order cs (take k (x # xs) @ drop (Suc k) (x # xs)))"

definition resolve_packages :: "env \<Rightarrow> nat list \<Rightarrow> FileStat list \<Rightarrow> resolve_state" where
  "resolve_packages e sched stats0 =
     (let (pending, rs) =
            foldl (\<lambda>acc i. resolve_begin e i acc)
              ([], \<lparr>r_stats = stats0, packages = [], lookups = [], rejected = None\<rparr>)
              [0..<length stats0]
      in foldl (\<lambda>rs k. resolve_resume e k rs) rs (pick_order sched pending))"

section \<open>\<^verbatim>\<open>logStats\<close>: grouping, sorting and the table\<close>

text \<open>
  \<open>grouped\<close> is a plain object used as a dictionary: its own properties in the order of
  their creation. The key of \<^verbatim>\<open>grouped[stat.packagename]\<close> is the name, or the string
  \<^verbatim>\<open>undefined\<close> for a stat without one. A key that is not an own property is looked up on
  \<^verbatim>\<open>Object.prototype\<close>, whose properties are all truthy: for such a key \<^verbatim>\<open>!group\<close> is
  false, no group is created, and the two \<^verbatim>\<open>+=\<close> write to the inherited value.
\<close>

definition property_key :: "string option \<Rightarrow> string" where
  "property_key nm = (case nm of None \<Rightarrow> ''undefined'' | Some n \<Rightarrow> n)"

definition Object_prototype_keys :: "string list" where
  "Object_prototype_keys =
     [''constructor'', ''__defineGetter__'', ''__defineSetter__'', ''hasOwnProperty'',
      ''__lookupGetter__'', ''__lookupSetter__'', ''isPrototypeOf'', ''propertyIsEnumerable'',
      ''toString'', ''valueOf'', ''__proto__'', ''toLocaleString'']"

fun update_group ::
  "string \<Rightarrow> (PackageStats \<Rightarrow> PackageStats) \<Rightarrow> (string \<times> PackageStats) list
     \<Rightarrow> (string \<times> PackageStats) list" where
  "update_group key f [] = []"
| "update_group key f ((k, g) # rest) =
     (if k = key then (k, f g) # rest else (k, g) # update_group key f rest)"

text \<open>
  \<^verbatim>\<open>group.count += 1; group.compileTime += d\<close>, with \<open>dadd\<close> for the addition of doubles.
\<close>

definition add_stat :: "(real \<Rightarrow> real \<Rightarrow> real) \<Rightarrow> real \<Rightarrow> PackageStats \<Rightarrow> PackageStats" where
  "add_stat dadd d g = g\<lparr>count := count g + 1, compileTime := dadd (compileTime g) d\<rparr>"

text \<open>One turn of \<^verbatim>\<open>stats.forEach\<close>; \<^verbatim>\<open>duration\<close> may throw.\<close>

definition group_stat ::
  "(real \<Rightarrow> real \<Rightarrow> real) \<Rightarrow> FileStat \<Rightarrow> (string \<times> PackageStats) list
     \<Rightarrow> js_error + (string \<times> PackageStats) list" where
  "group_stat dadd stat grouped =
     (let key = property_key (packagename stat)
      in case duration (timestamps stat) ''compiled'' None of
           Inl err \<Rightarrow> Inl err
         | Inr d \<Rightarrow>
             (case map_of grouped key of
                Some g \<Rightarrow> Inr (update_group key (add_stat dadd d) grouped)
              | None \<Rightarrow>
                  (if key \<in> set Object_prototype_keys then Inr grouped
                   else Inr (grouped @
                     [(key, add_stat dadd d
                              \<lparr>name = packagename stat, count = 0, compileTime = 0\<rparr>)]))))"

fun group_stats ::
  "(real \<Rightarrow> real \<Rightarrow> real) \<Rightarrow> FileStat list \<Rightarrow> (string \<times> PackageStats) list
     \<Rightarrow> js_error + (string \<times> PackageStats) list" where
  "group_stats dadd [] grouped = Inr grouped"
| "group_stats dadd (stat # rest) grouped =
     (case group_stat dadd stat grouped of
        Inl err \<Rightarrow> Inl err
      | Inr grouped' \<Rightarrow> group_stats dadd rest grouped')"

text \<open>
  \<^verbatim>\<open>Object.values\<close>: the values of the keys that are array indices (canonical decimal
  numerals below \<open>2^32 - 1\<close>) in ascending numeric order, then those of the other keys in
  the order of creation.
\<close>

definition parse_nat :: "string \<Rightarrow> nat" where
  "parse_nat s = foldl (\<lambda>a c. 10 * a + (of_char c - 48)) 0 s"

definition is_array_index :: "string \<Rightarrow> bool" where
  "is_array_index s =
     (s \<noteq> [] \<and> list_all (\<lambda>c. c \<in> set ''0123456789'') s
      \<and> (s = ''0'' \<or> hd s \<noteq> CHR ''0'') \<and> parse_nat s < 4294967295)"

definition Object_values :: "(string \<times> 'v) list \<Rightarrow> 'v list" where
  "Object_values obj =
     map snd (sort_key (\<lambda>kv. parse_nat (fst kv)) [kv \<leftarrow> obj. is_array_index (fst kv)]
              @ [kv \<leftarrow> obj. \<not> is_array_index (fst kv)])"

text \<open>
  \<^verbatim>\<open>groups.sort((a, b) => b.count - a.count)\<close>: \<^verbatim>\<open>Array.prototype.sort\<close> is stable, as
  is the insertion sort \<open>sort_key\<close>.
\<close>

definition sort_groups :: "PackageStats list \<Rightarrow> PackageStats list" where
  "sort_groups groups = sort_key (\<lambda>g. - int (count g)) groups"

text \<open>
  The rows of the table. A cell is a string, but the first cell of a row is the group's
  \<open>name\<close>, which is \<^verbatim>\<open>undefined\<close> for the group of the stats without a package.
\<close>

definition stat_line :: "env \<Rightarrow> PackageStats \<Rightarrow> string option list" where
  "stat_line e pkgStats =
     (let time = compileTime pkgStats;
          compileAvg = compileTime pkgStats / real (count pkgStats)
      in [name pkgStats,
          Some (show_nat (count pkgStats)),
          Some (humanDuration (toFixed e) time),
          Some (humanDuration (toFixed e) compileAvg)])"

definition stat_lines :: "env \<Rightarrow> PackageStats list \<Rightarrow> string option list list" where
  "stat_lines e groups =
     [Some ''library'', Some ''files'', Some ''time'', Some ''avg''] # map (stat_line e) groups"

text \<open>
  The body of the \<^verbatim>\<open>reduce\<close> callback: the \<^verbatim>\<open>for\<close> loop over the cells of a row, from
  index \<open>i\<close>. \<^verbatim>\<open>cell.length\<close> of an undefined cell throws a \<^verbatim>\<open>TypeError\<close>; beyond the end of
  \<open>widths\<close> the comparison with \<^verbatim>\<open>undefined\<close> is false and nothing is written.
\<close>

fun widen_row :: "nat \<Rightarrow> string option list \<Rightarrow> nat list \<Rightarrow> js_error + nat list" where
  "widen_row i [] widths = Inr widths"
| "widen_row i (cell # row) widths =
     (case cell of
        None \<Rightarrow> Inl (TypeError ''Cannot read properties of undefined (reading length)'')
      | Some c \<Rightarrow>
          widen_row (Suc i) row
            (if i < length widths \<and> widths ! i < length c then widths[i := length c] else widths))"

fun widen_rows :: "string option list list \<Rightarrow> nat list \<Rightarrow> js_error + nat list" where
  "widen_rows [] widths = Inr widths"
| "widen_rows (row # rows) widths =
     (case widen_row 0 row widths of
        Inl err \<Rightarrow> Inl err
      | Inr widths' \<Rightarrow> widen_rows rows widths')"

definition columnWidths :: "string option list list \<Rightarrow> js_error + nat list" where
  "columnWidths statLines = widen_rows statLines (map (\<lambda>_. 0) (hd statLines))"

text \<open>
  One row of the table: \<^verbatim>\<open>padEnd\<close> for the cell at index \<open>0\<close>, \<^verbatim>\<open>padStart\<close> for the
  others, joined by a tab. \<open>pad_cells i\<close> pads the cells of a row from index \<open>i\<close> on.
\<close>

definition width_at :: "nat list \<Rightarrow> nat \<Rightarrow> nat" where
  "width_at widths i = (if i < length widths then widths ! i else 0)"

fun pad_cells :: "nat list \<Rightarrow> nat \<Rightarrow> string option list \<Rightarrow> js_error + string list" where
  "pad_cells widths i [] = Inr []"
| "pad_cells widths i (cell # row) =
     (case cell of
        None \<Rightarrow> Inl (TypeError ''Cannot read properties of undefined (reading padEnd)'')
      | Some c \<Rightarrow>
          (case pad_cells widths (Suc i) row of
             Inl err \<Rightarrow> Inl err
           | Inr cells \<Rightarrow>
               Inr ((if i = 0 then padEnd (width_at widths i) c
                     else padStart (width_at widths i) c) # cells)))"

fun table_rows :: "nat list \<Rightarrow> string option list list \<Rightarrow> js_error + string list" where
  "table_rows widths [] = Inr []"
| "table_rows widths (row # rows) =
     (case pad_cells widths 0 row of
        Inl err \<Rightarrow> Inl err
      | Inr cells \<Rightarrow>
          (case table_rows widths rows of
             Inl err \<Rightarrow> Inl err
           | Inr ls \<Rightarrow> Inr (join [CHR 0x09] cells # ls)))"

definition render_table :: "string option list list \<Rightarrow> js_error + string" where
  "render_table statLines =
     (case columnWidths statLines of
        Inl err \<Rightarrow> Inl err
      | Inr widths \<Rightarrow>
          (case table_rows widths statLines of
             Inl err \<Rightarrow> Inl err
           | Inr ls \<Rightarrow> Inr (join [CHR 0x0A] ls)))"

text \<open>
  \<^verbatim>\<open>logStats\<close>: the resolution, then the grouping, the sort, the table and the log line. The
  result is the exception that rejects the returned promise, if any.
\<close>

definition build_table :: "env \<Rightarrow> FileStat list \<Rightarrow> js_error + string" where
  "build_table e sts =
     (case group_stats (double_add e) sts [] of
        Inl err \<Rightarrow> Inl err
      | Inr grouped \<Rightarrow> render_table (stat_lines e (sort_groups (Object_values grouped))))"

definition logStats ::
  "env \<Rightarrow> bool \<Rightarrow> nat list \<Rightarrow> plugin_state \<Rightarrow> js_error option \<times> plugin_state" where
  "logStats e ssr sched st =
     (let rs = resolve_packages e sched (stats st);
          st1 = st\<lparr>stats := r_stats rs\<rparr>
      in case rejected rs of
           Some err \<Rightarrow> (Some err, st1)
         | None \<Rightarrow>
             (case build_table e (stats st1) of
                Inl err \<Rightarrow> (Some err, st1)
              | Inr table \<Rightarrow>
                  (None, st1\<lparr>out := out st1 @
                     [Info (''prebundling compile stats - ssr: '' @ show_bool ssr) table]\<rparr>)))"

definition onEnd ::
  "env \<Rightarrow> bool \<Rightarrow> nat list \<Rightarrow> plugin_state \<Rightarrow> js_error option \<times> plugin_state" where
  "onEnd e ssr sched st =
     (if lastProgressLog st > 0 \<or> length (stats st) > 1
      then logStats e ssr sched (logProgress e ssr True st)
      else (None, st))"

section \<open>The host's calls\<close>

text \<open>
  The calls esbuild makes on one plugin instance: \<open>End\<close> carries the order in which the
  manifest lookups of that report complete. A load runs to its end before the next call.
\<close>

datatype host_call = Start | Load string | End "nat list"

fun host_step :: "env \<Rightarrow> ResolvedOptions \<Rightarrow> bool \<Rightarrow> plugin_state \<Rightarrow> host_call \<Rightarrow> plugin_state" where
  "host_step e options ssr st Start = onStart e st"
| "host_step e options ssr st (Load fname) = snd (onLoad e options ssr fname st)"
| "host_step e options ssr st (End sched) = snd (onEnd e ssr sched st)"

definition run :: "env \<Rightarrow> ResolvedOptions \<Rightarrow> bool \<Rightarrow> host_call list \<Rightarrow> plugin_state \<Rightarrow> plugin_state" where
  "run e options ssr calls st = foldl (host_step e options ssr) st calls"

section \<open>\<^verbatim>\<open>preprocess.js\<close>: the script and style hooks\<close>

definition supportedStyleLangs :: "string list" where
  "supportedStyleLangs =
     [''css'', ''less'', ''sass'', ''scss'', ''styl'', ''stylus'', ''postcss'', ''sss'']"

definition supportedScriptLangs :: "string list" where
  "supportedScriptLangs = [''ts'']"

definition lang_sep :: string where
  "lang_sep = ''.vite-preprocess.''"

text \<open>
  \<^verbatim>\<open>attributes.lang\<close> of a block: absent, \<^verbatim>\<open>true\<close> (an attribute without a value) or a
  string. \<^verbatim>\<open>Array.prototype.includes\<close> finds only a string that is in the list.
\<close>

datatype attr = AttrAbsent | AttrTrue | AttrString string

definition js_includes :: "string list \<Rightarrow> attr \<Rightarrow> bool" where
  "js_includes langs a = (case a of AttrString l \<Rightarrow> l \<in> set langs | _ \<Rightarrow> False)"

text \<open>The text \<^verbatim>\<open>`${lang}`\<close> of an attribute value.\<close>

definition attr_text :: "attr \<Rightarrow> string" where
  "attr_text a = (case a of AttrString l \<Rightarrow> l | AttrTrue \<Rightarrow> ''true'' | AttrAbsent \<Rightarrow> ''undefined'')"

record block =
  attributes_lang :: attr
  content :: string
  block_filename :: "string option"

text \<open>The parameter default \<^verbatim>\<open>filename = ''\<close>.\<close>

definition filename_or_empty :: "block \<Rightarrow> string" where
  "filename_or_empty b = (case block_filename b of None \<Rightarrow> [] | Some f \<Rightarrow> f)"

record css_output =
  css_code :: string
  css_map :: "string option"
  css_deps :: "string list option"

record hook_output =
  out_code :: string
  out_map :: "string option"
  out_dependencies :: "string list option"

text \<open>
  What a hook's promise settles to: \<^verbatim>\<open>undefined\<close> (no transformation), a result, or the
  exception of a collaborator.
\<close>

datatype hook_result = NoTransformation | Transformed hook_output | Rejected js_error

text \<open>
  A Vite configuration, as far as the hooks look at it: \<^verbatim>\<open>isResolvedConfig\<close> tests the
  truthiness of its \<open>inlineConfig\<close> field.
\<close>

datatype vconfig = VConfig (cfg_id: string) (inlineConfig: "vconfig option")

definition isResolvedConfig :: "vconfig \<Rightarrow> bool" where
  "isResolvedConfig cfg = (inlineConfig cfg \<noteq> None)"

text \<open>
  The collaborators of the hooks: Vite's \<^verbatim>\<open>transformWithEsbuild\<close> (content, filename,
  loader), \<^verbatim>\<open>preprocessCSS\<close> and \<^verbatim>\<open>resolveConfig\<close>, whether \<^verbatim>\<open>NODE_ENV\<close> is
  \<^verbatim>\<open>production\<close>, and \<^verbatim>\<open>mapToRelative\<close> and \<^verbatim>\<open>removeLangSuffix\<close> of
  \<^verbatim>\<open>utils/sourcemaps\<close>, which rewrite a map (or leave an absent one absent).
\<close>

record penv =
  transformWithEsbuild :: "string \<Rightarrow> string \<Rightarrow> string \<Rightarrow> js_error + string \<times> string option"
  preprocessCSS :: "string \<Rightarrow> string \<Rightarrow> vconfig \<Rightarrow> js_error + css_output"
  resolveConfig :: "vconfig \<Rightarrow> string \<Rightarrow> js_error + vconfig"
  node_env_production :: bool
  mapToRelative :: "string option \<Rightarrow> string \<Rightarrow> string option"
  removeLangSuffix :: "string option \<Rightarrow> string \<Rightarrow> string option"

definition script :: "penv \<Rightarrow> block \<Rightarrow> hook_result" where
  "script pe b =
     (let lang = attributes_lang b
      in if \<not> js_includes supportedScriptLangs lang then NoTransformation
         else (case transformWithEsbuild pe (content b) (filename_or_empty b) (attr_text lang) of
                 Inl err \<Rightarrow> Rejected err
               | Inr (code, m) \<Rightarrow>
                   Transformed \<lparr>out_code = code,
                                out_map = mapToRelative pe m (filename_or_empty b),
                                out_dependencies = None\<rparr>))"

text \<open>
  \<^verbatim>\<open>getCssTransformFn(config)\<close> is a closure over \<open>config\<close> alone; calling it is
  \<^verbatim>\<open>preprocessCSS(code, filename, config)\<close>.
\<close>

datatype CssTransform = CssTransformFn vconfig

definition getCssTransformFn :: "vconfig \<Rightarrow> CssTransform" where
  "getCssTransformFn cfg = CssTransformFn cfg"

fun call_transform :: "penv \<Rightarrow> CssTransform \<Rightarrow> string \<Rightarrow> string \<Rightarrow> js_error + css_output" where
  "call_transform pe (CssTransformFn cfg) code fname = preprocessCSS pe code fname cfg"

text \<open>
  One \<^verbatim>\<open>viteStyle\<close> instance: the \<open>config\<close> it was made with, the variable \<open>transform\<close> of
  the closure (undefined at first) and the property \<^verbatim>\<open>__resolvedConfig\<close> of the hook, which
  its holder may assign (\<open>None\<close> for \<^verbatim>\<open>null\<close> or any other falsy value).
\<close>

record style_state =
  config :: vconfig
  transform :: "CssTransform option"
  resolvedConfig_prop :: "vconfig option"

definition viteStyle :: "vconfig \<Rightarrow> style_state" where
  "viteStyle cfg = \<lparr>config = cfg, transform = None, resolvedConfig_prop = None\<rparr>"

text \<open>The body of \<^verbatim>\<open>if (!transform) { ... }\<close>: the configuration the transform is made from.\<close>

definition choose_config :: "penv \<Rightarrow> style_state \<Rightarrow> js_error + vconfig" where
  "choose_config pe st =
     (case resolvedConfig_prop st of
        Some rc \<Rightarrow> Inr rc
      | None \<Rightarrow>
          (if isResolvedConfig (config st) then Inr (config st)
           else resolveConfig pe (config st)
                  (if node_env_production pe then ''build'' else ''serve'')))"

text \<open>
  \<^verbatim>\<open>if (!transform) { ...; transform = getCssTransformFn(resolvedConfig) }\<close>: the transform
  the block is passed to, and the instance with the transform kept. A rejected
  \<^verbatim>\<open>resolveConfig\<close> leaves \<open>transform\<close> undefined.
\<close>

definition ensure_transform :: "penv \<Rightarrow> style_state \<Rightarrow> js_error + CssTransform \<times> style_state" where
  "ensure_transform pe st =
     (case transform st of
        Some t \<Rightarrow> Inr (t, st)
      | None \<Rightarrow>
          (case choose_config pe st of
             Inl err \<Rightarrow> Inl err
           | Inr rc \<Rightarrow> Inr (getCssTransformFn rc, st\<lparr>transform := Some (getCssTransformFn rc)\<rparr>)))"

text \<open>
  The \<open>style\<close> hook on one block, as one step: a call during which no other call of the
  hook runs and \<^verbatim>\<open>__resolvedConfig\<close> is not assigned. Its result and the instance after it.
\<close>

definition style :: "penv \<Rightarrow> block \<Rightarrow> style_state \<Rightarrow> hook_result \<times> style_state" where
  "style pe b st =
     (let lang = attributes_lang b
      in if \<not> js_includes supportedStyleLangs lang then (NoTransformation, st)
         else (case ensure_transform pe st of
                 Inl err \<Rightarrow> (Rejected err, st)
               | Inr (t, st1) \<Rightarrow>
                   (let suffix = lang_sep @ attr_text lang;
                        moduleId = filename_or_empty b @ suffix
                    in case call_transform pe t (content b) moduleId of
                         Inl err \<Rightarrow> (Rejected err, st1)
                       | Inr r \<Rightarrow>
                           (Transformed
                              \<lparr>out_code = css_code r,
                               out_map = mapToRelative pe (removeLangSuffix pe (css_map r) suffix)
                                           (filename_or_empty b),
                               out_dependencies =
                                 map_option (filter (\<lambda>d. \<not> endsWith d suffix)) (css_deps r)\<rparr>,
                            st1))))"

text \<open>
  The hook is an \<^verbatim>\<open>async\<close> function: a call runs to its first \<^verbatim>\<open>await\<close> before anything
  else does, and other calls of the hook and assignments to \<^verbatim>\<open>__resolvedConfig\<close> can take
  place while it waits. The statements after \<^verbatim>\<open>if (!transform) { ... }\<close>, from \<open>suffix\<close> to
  the \<^verbatim>\<open>return\<close>, on the transform \<open>t\<close> that the variable \<open>transform\<close> holds when they start:
  they read and write nothing of the instance after the call \<^verbatim>\<open>transform(content, moduleId)\<close>,
  so what the call settles to is fixed there.
\<close>

definition finish_block :: "penv \<Rightarrow> block \<Rightarrow> CssTransform \<Rightarrow> hook_result" where
  "finish_block pe b t =
     (let lang = attributes_lang b;
          suffix = lang_sep @ attr_text lang;
          moduleId = filename_or_empty b @ suffix
      in case call_transform pe t (content b) moduleId of
           Inl err \<Rightarrow> Rejected err
         | Inr r \<Rightarrow>
             Transformed
               \<lparr>out_code = css_code r,
                out_map = mapToRelative pe (removeLangSuffix pe (css_map r) suffix)
                            (filename_or_empty b),
                out_dependencies =
                  map_option (filter (\<lambda>d. \<not> endsWith d suffix)) (css_deps r)\<rparr>)"

text \<open>
  The configuration that \<^verbatim>\<open>if (!transform) { ... }\<close> has without awaiting:
  \<^verbatim>\<open>style.__resolvedConfig\<close> when truthy, else \<open>config\<close> when it is a resolved one.
\<close>

definition ready_config :: "style_state \<Rightarrow> vconfig option" where
  "ready_config st =
     (case resolvedConfig_prop st of
        Some rc \<Rightarrow> Some rc
      | None \<Rightarrow> (if isResolvedConfig (config st) then Some (config st) else None))"

text \<open>
  A call of the hook up to its first \<^verbatim>\<open>await\<close>. It has its result there (\<open>Some\<close>) when the
  tag is unsupported, when \<open>transform\<close> is set, and when a configuration is at hand, which
  it makes the transform from; otherwise it has called \<^verbatim>\<open>resolveConfig\<close> and waits for it
  (\<open>None\<close>), and \<open>transform\<close> is still unset.
\<close>

definition style_begin :: "penv \<Rightarrow> block \<Rightarrow> style_state \<Rightarrow> hook_result option \<times> style_state" where
  "style_begin pe b st =
     (if \<not> js_includes supportedStyleLangs (attributes_lang b) then (Some NoTransformation, st)
      else (case transform st of
              Some t \<Rightarrow> (Some (finish_block pe b t), st)
            | None \<Rightarrow>
                (case ready_config st of
                   Some rc \<Rightarrow>
                     (Some (finish_block pe b (getCssTransformFn rc)),
                      st\<lparr>transform := Some (getCssTransformFn rc)\<rparr>)
                 | None \<Rightarrow> (None, st))))"

text \<open>
  The rest of a call that waited, when \<^verbatim>\<open>resolveConfig\<close> settles, on the instance as it is
  by then: a rejection is the call's; a configuration is made into a transform, which is
  assigned to \<open>transform\<close> whatever it holds, and the block is passed to it.
\<close>

definition style_resume :: "penv \<Rightarrow> block \<Rightarrow> style_state \<Rightarrow> hook_result \<times> style_state" where
  "style_resume pe b st =
     (case resolveConfig pe (config st) (if node_env_production pe then ''build'' else ''serve'') of
        Inl err \<Rightarrow> (Rejected err, st)
      | Inr rc \<Rightarrow>
          (finish_block pe b (getCssTransformFn rc),
           st\<lparr>transform := Some (getCssTransformFn rc)\<rparr>))"

text \<open>
  \<^verbatim>\<open>vitePreprocess(opts)\<close>: the \<open>script\<close> hook unless \<^verbatim>\<open>opts.script\<close> is \<^verbatim>\<open>false\<close>, and
  a \<open>style\<close> instance unless \<^verbatim>\<open>opts.style\<close> is \<^verbatim>\<open>false\<close>, made with \<^verbatim>\<open>opts.style\<close> when
  that is an object and with the default \<^verbatim>\<open>{}\<close> of \<^verbatim>\<open>viteStyle\<close> otherwise.
\<close>

datatype style_option = StyleFlag bool | StyleConfig vconfig

record preprocess_options =
  opt_script :: "bool option"
  opt_style :: "style_option option"

record preprocessor =
  has_script :: bool
  style_instance :: "style_state option"

definition vitePreprocess :: "preprocess_options option \<Rightarrow> preprocessor" where
  "vitePreprocess opts =
     \<lparr>has_script = (case opts of None \<Rightarrow> True | Some given \<Rightarrow> opt_script given \<noteq> Some False),
      style_instance =
        (case opts of
           None \<Rightarrow> Some (viteStyle (VConfig [] None))
         | Some given \<Rightarrow>
             (case opt_style given of
                Some (StyleFlag False) \<Rightarrow> None
              | Some (StyleConfig cfg) \<Rightarrow> Some (viteStyle cfg)
              | _ \<Rightarrow> Some (viteStyle (VConfig [] None))))\<rparr>"

text \<open>
  An instance in use: the instance itself, the blocks of the calls that wait for
  \<^verbatim>\<open>resolveConfig\<close>, the calls whose result is decided (they returned at once, were
  rejected by \<^verbatim>\<open>resolveConfig\<close>, or have passed their block to a transform) with that
  result, in the order in which it was decided, and the number of calls of
  \<^verbatim>\<open>resolveConfig\<close> made so far.
\<close>

record style_system =
  inst :: style_state
  awaiting :: "block list"
  settled :: "(block \<times> hook_result) list"
  resolutions :: nat

definition style_start :: "style_state \<Rightarrow> style_system" where
  "style_start st = \<lparr>inst = st, awaiting = [], settled = [], resolutions = 0\<rparr>"

text \<open>
  What happens to it, one step after the other: the holder passes the hook a block, the
  \<^verbatim>\<open>resolveConfig\<close> of the \<open>k\<close>-th waiting call settles and the call goes on (nothing
  happens when fewer calls wait), or the holder assigns \<^verbatim>\<open>style.__resolvedConfig\<close>.
\<close>

datatype style_op = StyleBlock block | ConfigSettles nat | AssignResolvedConfig "vconfig option"

fun style_step :: "penv \<Rightarrow> style_system \<Rightarrow> style_op \<Rightarrow> style_system" where
  "style_step pe sys (StyleBlock b) =
     (case style_begin pe b (inst sys) of
        (Some r, st1) \<Rightarrow> sys\<lparr>inst := st1, settled := settled sys @ [(b, r)]\<rparr>
      | (None, st1) \<Rightarrow>
          sys\<lparr>inst := st1, awaiting := awaiting sys @ [b],
              resolutions := Suc (resolutions sys)\<rparr>)"
| "style_step pe sys (ConfigSettles k) =
     (if k < length (awaiting sys)
      then (case style_resume pe (awaiting sys ! k) (inst sys) of
              (r, st1) \<Rightarrow>
                sys\<lparr>inst := st1,
                    awaiting := take k (awaiting sys) @ drop (Suc k) (awaiting sys),
                    settled := settled sys @ [(awaiting sys ! k, r)]\<rparr>)
      else sys)"
| "style_step pe sys (AssignResolvedConfig v) =
     sys\<lparr>inst := (inst sys)\<lparr>resolvedConfig_prop := v\<rparr>\<rparr>"

definition style_run :: "penv \<Rightarrow> style_op list \<Rightarrow> style_system \<Rightarrow> style_system" where
  "style_run pe ops sys = foldl (style_step pe) sys ops"

section \<open>Predicates of the properties\<close>

text \<open>
  A stat whose timestamps are exactly a \<^verbatim>\<open>compileStart\<close> event followed by a \<^verbatim>\<open>compiled\<close>
  event.
\<close>

definition compile_timed :: "FileStat \<Rightarrow> bool" where
  "compile_timed s =
     (case timestamps s of
        [a, b] \<Rightarrow> event a = ''compileStart'' \<and> event b = ''compiled''
      | _ \<Rightarrow> False)"

text \<open>The clock readings of the progress lines in a log, in order.\<close>

fun progress_times :: "log_event list \<Rightarrow> real list" where
  "progress_times [] = []"
| "progress_times (Progress t msg d # evs) = t # progress_times evs"
| "progress_times (ev # evs) = progress_times evs"

text \<open>
  The state within a pass that started at clock reading \<open>start\<close> with the log \<open>out0\<close>:
  \<open>bundleStart\<close> is \<open>start\<close>, the log has grown from \<open>out0\<close>, and \<open>lastProgressLog\<close> is
  the reading of the last progress line emitted since, or \<open>0\<close> when there is none.
\<close>

definition pass_inv :: "real \<Rightarrow> log_event list \<Rightarrow> plugin_state \<Rightarrow> bool" where
  "pass_inv start out0 st =
     (bundleStart st = Some start
      \<and> length out0 \<le> length (out st) \<and> take (length out0) (out st) = out0
      \<and> lastProgressLog st =
          (let ps = progress_times (drop (length out0) (out st))
           in if ps = [] then 0 else last ps))"

text \<open>
  The alignment of the table, stated on rows of four strings: the width of a column is
  the length of its longest cell; a row is its first cell with spaces appended up to the
  width of the column, and each other cell with spaces put in front of it up to the width
  of its column, joined by tabs.
\<close>

definition column_width :: "string list list \<Rightarrow> nat \<Rightarrow> nat" where
  "column_width rows i = foldr (\<lambda>row m. max (length (row ! i)) m) rows 0"

definition aligned_row :: "string list list \<Rightarrow> string list \<Rightarrow> string" where
  "aligned_row rows row =
     join [CHR 0x09]
       [row ! 0 @ replicate (column_width rows 0 - length (row ! 0)) CHR '' '',
        replicate (column_width rows 1 - length (row ! 1)) CHR '' '' @ row ! 1,
        replicate (column_width rows 2 - length (row ! 2)) CHR '' '' @ row ! 2,
        replicate (column_width rows 3 - length (row ! 3)) CHR '' '' @ row ! 3]"

text \<open>The strings of the table's rows for groups that all have a name.\<close>

definition named_rows :: "env \<Rightarrow> PackageStats list \<Rightarrow> string list list" where
  "named_rows e groups =
     [''library'', ''files'', ''time'', ''avg'']
       # map (\<lambda>g. [property_key (name g), show_nat (count g),
                   humanDuration (toFixed e) (compileTime g),
                   humanDuration (toFixed e) (compileTime g / real (count g))]) groups"

text \<open>
  The package a stat ends with: the name in the manifest that the lookup for its file
  finds (none for a manifest without a name); the stat's own (none, after a load) when the
  lookup finds no manifest or the manifest cannot be read.
\<close>

definition resolved_name :: "env \<Rightarrow> FileStat \<Rightarrow> string option" where
  "resolved_name e s =
     (case findClosestPkgJsonPath e (filename s) of
        None \<Rightarrow> packagename s
      | Some pp \<Rightarrow>
          (if pp = [] then packagename s
           else (case manifest_name e pp of
                   Inl err \<Rightarrow> packagename s
                 | Inr nm \<Rightarrow> nm)))"

text \<open>
  The group a package should get from the stats of a pass: the stats under the key, their
  number and the sum of their compile durations (the \<^verbatim>\<open>compiled\<close> reading minus the
  \<^verbatim>\<open>compileStart\<close> reading), added to \<open>0\<close> one after the other in the order of the stats
  with the addition \<open>dadd\<close> of doubles.
\<close>

definition stat_key :: "FileStat \<Rightarrow> string" where
  "stat_key s = property_key (packagename s)"

definition compile_duration :: "FileStat \<Rightarrow> real" where
  "compile_duration s = ts (timestamps s ! 1) - ts (timestamps s ! 0)"

definition expected_group ::
  "(real \<Rightarrow> real \<Rightarrow> real) \<Rightarrow> FileStat list \<Rightarrow> string \<Rightarrow> PackageStats" where
  "expected_group dadd sts k =
     \<lparr>name = packagename (hd [s \<leftarrow> sts. stat_key s = k]),
      count = length [s \<leftarrow> sts. stat_key s = k],
      compileTime = foldl dadd 0 (map compile_duration [s \<leftarrow> sts. stat_key s = k])\<rparr>"

text \<open>
  For the proofs about the resolution: \<open>named e s\<close> is the stat with the package it ends
  with, and \<open>partly e sts D xs\<close> says that \<open>xs\<close> are the stats \<open>sts\<close> with those at the indices
  in \<open>D\<close> named.
\<close>

definition named :: "env \<Rightarrow> FileStat \<Rightarrow> FileStat" where
  "named e s = s\<lparr>packagename := resolved_name e s\<rparr>"

definition partly :: "env \<Rightarrow> FileStat list \<Rightarrow> nat set \<Rightarrow> FileStat list \<Rightarrow> bool" where
  "partly e sts D xs =
     (length xs = length sts
      \<and> (\<forall>j < length sts. xs ! j = (if j \<in> D then named e (sts ! j) else sts ! j)))"

text \<open>
  For the proofs about the grouping: \<open>grouped\<close> holds, under distinct keys, exactly the
  expected group of every key of the stats \<open>sts\<close>.
\<close>

definition grouped_ok ::
  "(real \<Rightarrow> real \<Rightarrow> real) \<Rightarrow> FileStat list \<Rightarrow> (string \<times> PackageStats) list \<Rightarrow> bool" where
  "grouped_ok dadd sts grouped =
     (distinct (map fst grouped)
      \<and> (\<forall>k. map_of grouped k =
                (if k \<in> stat_key ` set sts then Some (expected_group dadd sts k) else None)))"

text \<open>The blocks that a sequence of steps passes to the hook, in order.\<close>

fun passed_blocks :: "style_op list \<Rightarrow> block list" where
  "passed_blocks [] = []"
| "passed_blocks (StyleBlock b # ops) = b # passed_blocks ops"
| "passed_blocks (_ # ops) = passed_blocks ops"

text \<open>
  What a block settles to when the hook passes every supported block to the transform
  \<open>t\<close> and no other.
\<close>

definition cached_result :: "penv \<Rightarrow> CssTransform \<Rightarrow> block \<Rightarrow> block \<times> hook_result" where
  "cached_result pe t b =
     (b, if js_includes supportedStyleLangs (attributes_lang b) then finish_block pe b t
         else NoTransformation)"

section \<open>A concrete build, for the examples\<close>

text \<open>
  \<open>toFixed_exact d x\<close> prints \<open>x\<close> with \<open>d\<close> decimals, rounding half away from zero, as
  \<^verbatim>\<open>toFixed\<close> does on a number that is exactly representable (and below \<open>10^21\<close>).
\<close>

definition toFixed_exact :: "nat \<Rightarrow> real \<Rightarrow> string" where
  "toFixed_exact d x =
     (let n = nat \<lfloor>\<bar>x\<bar> * 10 ^ d + 1 / 2\<rfloor>;
          ds = show_nat n;
          ds' = replicate (Suc d - length ds) CHR ''0'' @ ds
      in (if x < 0 then ''-'' else [])
           @ take (length ds' - d) ds'
           @ (if d = 0 then [] else ''.'' @ drop (length ds' - d) ds'))"

text \<open>
  A clock that advances one second per reading, three packages with a manifest each (named
  \<open>lib\<close>, \<open>ui\<close> and \<open>constructor\<close>), files outside them without one, and a compiler that
  rejects the source text \<^verbatim>\<open><bad\<close>. The durations of the examples are whole seconds, whose
  sums are exact in doubles, so \<open>double_add\<close> is the sum.
\<close>

definition demo_env :: env where
  "demo_env =
     \<lparr>perf_now = (\<lambda>n. 1000 * (real n + 1)),
      readFileSync = (\<lambda>f. if f = ''/p/lib/Bad.svelte'' then Inr ''<bad'' else Inr ''<h1>hi</h1>''),
      compile = (\<lambda>code opts.
         if code = ''<bad'' then Inl (JsError ''ParseError'' ''unexpected end of input'')
         else if code = ''<h1>hi</h1>''
           then Inr \<lparr>js_code = ''export default C;'', js_map_url = ''data:m''\<rparr>
         else Inr \<lparr>js_code = ''export default '' @ code @ '';'',
                    js_map_url = ''data:''
                      @ (case co_sourcemap opts of None \<Rightarrow> ''none'' | Some m \<Rightarrow> m) @ '',''
                      @ (case co_generate opts of None \<Rightarrow> ''none'' | Some g \<Rightarrow> g)\<rparr>),
      toESBuildError = (\<lambda>err opts. err_message err),
      isCssString = True,
      debug_enabled = False,
      JSON_stringify = (\<lambda>_. ''{}''),
      toFixed = toFixed_exact,
      findClosestPkgJsonPath = (\<lambda>f.
         if startsWith f ''/p/lib/'' then Some ''/p/lib/package.json''
         else if startsWith f ''/p/ui/'' then Some ''/p/ui/package.json''
         else if startsWith f ''/p/ctor/'' then Some ''/p/ctor/package.json''
         else None),
      manifest_name = (\<lambda>p.
         if p = ''/p/lib/package.json'' then Inr (Some ''lib'')
         else if p = ''/p/ctor/package.json'' then Inr (Some ''constructor'')
         else Inr (Some ''ui'')),
      double_add = (\<lambda>a b. a + b)\<rparr>"

definition demo_options :: ResolvedOptions where
  "demo_options =
     \<lparr>extensions = None,
      compilerOptions = \<lparr>co_css = CssUnset, co_filename = None, co_format = None,
                         co_generate = None, co_sourcemap = None, co_other = []\<rparr>,
      preprocess = None,
      dynamicCompileOptions = None\<rparr>"

text \<open>
  Options with a preprocessor, which turns every source into \<^verbatim>\<open>Pre\<close> and gives the map
  \<^verbatim>\<open>m1\<close>, and with a hook for the compile options, which asks for \<^verbatim>\<open>ssr\<close> output.
\<close>

definition demo_pre_options :: ResolvedOptions where
  "demo_pre_options =
     demo_options
       \<lparr>preprocess := Some (\<lambda>code fname. Inr \<lparr>p_code = ''Pre'', p_map = Some ''m1''\<rparr>),
        dynamicCompileOptions := Some (\<lambda>fname code opts.
          Inr (Some ((compilerOptions demo_options)\<lparr>co_generate := Some ''ssr''\<rparr>)))\<rparr>"

definition demo_state :: plugin_state where
  "demo_state = \<lparr>stats = [], bundleStart = None, lastProgressLog = 0, ticks = 0, out = []\<rparr>"

definition demo_stat :: "string \<Rightarrow> string option \<Rightarrow> real \<Rightarrow> real \<Rightarrow> FileStat" where
  "demo_stat f p t0 t1 =
     \<lparr>filename = f, packagename = p,
      timestamps = [\<lparr>event = ''compileStart'', ts = t0\<rparr>, \<lparr>event = ''compiled'', ts = t1\<rparr>]\<rparr>"

text \<open>
  For the hooks: \<^verbatim>\<open>resolveConfig\<close> fails on the configuration named \<open>broken\<close>, and
  \<^verbatim>\<open>preprocessCSS\<close> on the content \<^verbatim>\<open>a {\<close>; the map it gives names the configuration
  it was called with.
\<close>

definition demo_penv :: penv where
  "demo_penv =
     \<lparr>transformWithEsbuild = (\<lambda>code fname loader. Inr (code, None)),
      preprocessCSS = (\<lambda>code fname cfg.
         if code = ''a {'' then Inl (JsError ''CssSyntaxError'' ''Unclosed block'')
         else Inr \<lparr>css_code = code, css_map = Some (''map-'' @ cfg_id cfg), css_deps = None\<rparr>),
      resolveConfig = (\<lambda>cfg mode.
         if cfg_id cfg = ''broken'' then Inl (JsError ''Error'' ''failed to load config'')
         else Inr (VConfig (cfg_id cfg) (Some cfg))),
      node_env_production = False,
      mapToRelative = (\<lambda>m fname. m),
      removeLangSuffix = (\<lambda>m suffix. m)\<rparr>"

definition demo_block :: "string \<Rightarrow> string \<Rightarrow> block" where
  "demo_block lang text =
     \<lparr>attributes_lang = AttrString lang, content = text, block_filename = Some ''/p/App.svelte''\<rparr>"

section \<open>Properties\<close>

subsection \<open>The compiler step and one load (claims C1 and C5)\<close>

lemma duration_pair:
  "duration [\<lparr>event = ''compileStart'', ts = t0\<rparr>, \<lparr>event = ''compiled'', ts = t1\<rparr>] ''compiled'' None
     = Inr (t1 - t0)"
  by (simp add: duration_def findIndex_def at_index_def)

lemma timed_compile_result:
  "fst (timed_compile e src opts w) =
     (case compile e src opts of
        Inl err \<Rightarrow> Inl err
      | Inr compiled \<Rightarrow> Inr (js_code compiled @ ''//# sourceMappingURL='' @ js_map_url compiled))"
  by (simp add: timed_compile_def Let_def split: sum.splits)

lemma takeTimestamp_stats: "stats (snd (takeTimestamp e ev w)) = stats (snd w)"
  by (cases w) (simp add: takeTimestamp_def)

lemma log_dynamic_stats: "stats (log_dynamic e fname dyn st) = stats st"
  by (simp add: log_dynamic_def split: option.splits)

lemma timed_compile_stats: "stats (snd (snd (timed_compile e src opts w))) = stats (snd w)"
  by (simp add: timed_compile_def Let_def takeTimestamp_stats split: sum.splits)

lemma compileSvelte_stats:
  "stats (snd (snd (compileSvelte e options fname code ssr w))) = stats (snd w)"
  by (simp add: compileSvelte_def timed_compile_stats log_dynamic_stats split: sum.splits prod.splits)

lemma logProgress_stats: "stats (logProgress e ssr d st) = stats st"
  by (simp add: logProgress_def Let_def)

lemma timed_compile_timestamps:
  assumes "timed_compile e src opts ([], st) = (Inr s, tss, st')"
  shows "tss = [\<lparr>event = ''compileStart'', ts = perf_now e (ticks st)\<rparr>,
                \<lparr>event = ''compiled'', ts = perf_now e (Suc (ticks st))\<rparr>]"
  using assms
  by (auto simp: timed_compile_def Let_def takeTimestamp_def split: sum.splits)

lemma compileSvelte_timestamps:
  assumes "compileSvelte e options fname code ssr ([], st) = (Inr s, tss, st')"
  shows "\<exists>t0 t1. tss = [\<lparr>event = ''compileStart'', ts = t0\<rparr>, \<lparr>event = ''compiled'', ts = t1\<rparr>]"
proof -
  from assms obtain src opts st1 where "timed_compile e src opts ([], st1) = (Inr s, tss, st')"
    by (auto simp: compileSvelte_def split: sum.splits prod.splits)
  then show ?thesis
    using timed_compile_timestamps by blast
qed

lemmas demo_eval = demo_env_def demo_options_def demo_state_def run_def onStart_def onLoad_def
  logProgress_def progress_due_def progressDelay_def progressThrottle_def compileSvelte_def
  run_preprocess_def run_dynamic_def log_dynamic_def timed_compile_def takeTimestamp_def
  base_compile_options_def Let_def

lemma demo_run1:
  "run demo_env demo_options False [Start, Load ''/p/lib/A.svelte''] demo_state
   = \<lparr>stats = [demo_stat ''/p/lib/A.svelte'' None 3000 4000], bundleStart = Some 1000,
      lastProgressLog = 0, ticks = 4, out = []\<rparr>"
  by (simp add: demo_eval demo_stat_def)

lemma demo_pre_stages:
  "run_preprocess demo_pre_options ''/p/lib/A.svelte'' ''<h1>hi</h1>''
       (base_compile_options demo_env demo_pre_options ''/p/lib/A.svelte'' False)
     = Inr (''Pre'', \<lparr>co_css = CssInjected, co_filename = Some ''/p/lib/A.svelte'',
                     co_format = Some ''esm'', co_generate = Some ''dom'',
                     co_sourcemap = Some ''m1'', co_other = []\<rparr>)"
  "run_dynamic demo_pre_options ''/p/lib/A.svelte'' ''Pre''
       \<lparr>co_css = CssInjected, co_filename = Some ''/p/lib/A.svelte'',
        co_format = Some ''esm'', co_generate = Some ''dom'',
        co_sourcemap = Some ''m1'', co_other = []\<rparr>
     = Inr (Some \<lparr>co_css = CssUnset, co_filename = None, co_format = None,
                  co_generate = Some ''ssr'', co_sourcemap = None, co_other = []\<rparr>)"
  "compile demo_env ''Pre''
       (spread \<lparr>co_css = CssInjected, co_filename = Some ''/p/lib/A.svelte'',
                co_format = Some ''esm'', co_generate = Some ''dom'',
                co_sourcemap = Some ''m1'', co_other = []\<rparr>
               \<lparr>co_css = CssUnset, co_filename = None, co_format = None,
                co_generate = Some ''ssr'', co_sourcemap = None, co_other = []\<rparr>)
     = Inr \<lparr>js_code = ''export default Pre;'', js_map_url = ''data:m1,ssr''\<rparr>"
  by (simp_all add: demo_pre_options_def demo_options_def demo_env_def run_preprocess_def
        run_dynamic_def base_compile_options_def spread_def Let_def)

text \<open>
  Claim C1, as the code has it: \<^verbatim>\<open>compileSvelte\<close> returns a string exactly when the
  preprocessing step, the hook for the compile options and the compiler all succeed, the
  compiler being called on the code the preprocessing step left (the source itself without
  a preprocessor) with the compile options of that step, overridden by those the hook gave;
  the string is then the code of that compilation, directly followed by
  \<^verbatim>\<open>//# sourceMappingURL=\<close> and the data URL of its map. No newline stands between the code
  and the comment.
\<close>

theorem compileSvelte_returns_code_and_comment:
  "fst (compileSvelte e options fname code ssr w) = Inr s \<longleftrightarrow>
     (\<exists>finalCode compileOptions dyn compiled.
        run_preprocess options fname code (base_compile_options e options fname ssr)
          = Inr (finalCode, compileOptions)
      \<and> run_dynamic options fname finalCode compileOptions = Inr dyn
      \<and> compile e finalCode
            (case dyn of None \<Rightarrow> compileOptions | Some d \<Rightarrow> spread compileOptions d)
          = Inr compiled
      \<and> s = js_code compiled @ ''//# sourceMappingURL='' @ js_map_url compiled)"
proof (cases "run_preprocess options fname code (base_compile_options e options fname ssr)")
  case (Inl err)
  then show ?thesis by (simp add: compileSvelte_def)
next
  case (Inr p)
  obtain finalCode compileOptions where p: "p = (finalCode, compileOptions)" by (cases p)
  show ?thesis
  proof (cases "run_dynamic options fname finalCode compileOptions")
    case (Inl err)
    with Inr p show ?thesis by (simp add: compileSvelte_def)
  next
    case dyn: (Inr dyn)
    with Inr p show ?thesis
      by (auto simp: compileSvelte_def timed_compile_result split: sum.splits)
  qed
qed

theorem compileSvelte_returns_code_and_comment_witness:
  "run_preprocess demo_pre_options ''/p/lib/A.svelte'' ''<h1>hi</h1>''
       (base_compile_options demo_env demo_pre_options ''/p/lib/A.svelte'' False)
     = Inr (''Pre'', \<lparr>co_css = CssInjected, co_filename = Some ''/p/lib/A.svelte'',
                     co_format = Some ''esm'', co_generate = Some ''dom'',
                     co_sourcemap = Some ''m1'', co_other = []\<rparr>)
   \<and> run_dynamic demo_pre_options ''/p/lib/A.svelte'' ''Pre''
       \<lparr>co_css = CssInjected, co_filename = Some ''/p/lib/A.svelte'',
        co_format = Some ''esm'', co_generate = Some ''dom'',
        co_sourcemap = Some ''m1'', co_other = []\<rparr>
     = Inr (Some \<lparr>co_css = CssUnset, co_filename = None, co_format = None,
                  co_generate = Some ''ssr'', co_sourcemap = None, co_other = []\<rparr>)
   \<and> compile demo_env ''Pre''
       \<lparr>co_css = CssInjected, co_filename = Some ''/p/lib/A.svelte'',
        co_format = Some ''esm'', co_generate = Some ''ssr'',
        co_sourcemap = Some ''m1'', co_other = []\<rparr>
     = Inr \<lparr>js_code = ''export default Pre;'', js_map_url = ''data:m1,ssr''\<rparr>
   \<and> fst (compileSvelte demo_env demo_pre_options ''/p/lib/A.svelte'' ''<h1>hi</h1>'' False
          ([], demo_state))
     = Inr ''export default Pre;//# sourceMappingURL=data:m1,ssr''
   \<and> fst (compileSvelte demo_env demo_pre_options ''/p/lib/A.svelte'' ''<h1>hi</h1>'' False
          ([], demo_state))
     \<noteq> Inr ''export default C;//# sourceMappingURL=data:m''"
  using compileSvelte_returns_code_and_comment
      [of demo_env demo_pre_options "''/p/lib/A.svelte''" "''<h1>hi</h1>''" False
          "([], demo_state)" "''export default Pre;//# sourceMappingURL=data:m1,ssr''"]
    compileSvelte_returns_code_and_comment
      [of demo_env demo_pre_options "''/p/lib/A.svelte''" "''<h1>hi</h1>''" False
          "([], demo_state)" "''export default C;//# sourceMappingURL=data:m''"]
    demo_pre_stages(3)
  by (simp add: demo_pre_stages(1,2)) (simp add: spread_def)

text \<open>
  Claim C1 as stated asks for a newline before the comment; the returned string has none.
\<close>

theorem compileSvelte_newline_counterexample:
  "compile demo_env ''<h1>hi</h1>'' (base_compile_options demo_env demo_options ''/p/lib/A.svelte'' False)
     = Inr \<lparr>js_code = ''export default C;'', js_map_url = ''data:m''\<rparr>
   \<and> fst (compileSvelte demo_env demo_options ''/p/lib/A.svelte'' ''<h1>hi</h1>'' False ([], demo_state))
     = Inr (''export default C;'' @ ''//# sourceMappingURL='' @ ''data:m'')
   \<and> fst (compileSvelte demo_env demo_options ''/p/lib/A.svelte'' ''<h1>hi</h1>'' False ([], demo_state))
     \<noteq> Inr (''export default C;'' @ [CHR 0x0A] @ ''//# sourceMappingURL='' @ ''data:m'')"
  by (simp add: demo_eval)

text \<open>
  Claim C5: when \<^verbatim>\<open>compileSvelte\<close> throws for a file that was read, \<^verbatim>\<open>onLoad\<close> returns
  \<^verbatim>\<open>{ errors: [toESBuildError(e, options)] }\<close> and \<open>stats\<close> is what it was before the load.
\<close>

theorem onLoad_compile_throws:
  assumes "readFileSync e fname = Inr code"
    and "fst (compileSvelte e options fname code ssr ([], logProgress e ssr False st)) = Inl err"
  shows "fst (onLoad e options ssr fname st) = Errors [toESBuildError e err options]
         \<and> stats (snd (onLoad e options ssr fname st)) = stats st"
proof -
  obtain r tss st2 where c: "compileSvelte e options fname code ssr ([], logProgress e ssr False st) = (r, tss, st2)"
    by (cases "compileSvelte e options fname code ssr ([], logProgress e ssr False st)") auto
  with assms(2) have r: "r = Inl err" by simp
  have "stats st2 = stats st"
    using compileSvelte_stats [of e options fname code ssr "([], logProgress e ssr False st)"] c
    by (simp add: logProgress_stats)
  then show ?thesis
    using assms(1) c r by (simp add: onLoad_def Let_def)
qed

theorem onLoad_compile_throws_witness:
  "readFileSync demo_env ''/p/lib/Bad.svelte'' = Inr ''<bad''
   \<and> fst (onLoad demo_env demo_options False ''/p/lib/Bad.svelte''
            (run demo_env demo_options False [Start, Load ''/p/lib/A.svelte''] demo_state))
       = Errors [''unexpected end of input'']
   \<and> stats (snd (onLoad demo_env demo_options False ''/p/lib/Bad.svelte''
            (run demo_env demo_options False [Start, Load ''/p/lib/A.svelte''] demo_state)))
       = [demo_stat ''/p/lib/A.svelte'' None 3000 4000]"
proof -
  let ?st = "run demo_env demo_options False [Start, Load ''/p/lib/A.svelte''] demo_state"
  have 1: "readFileSync demo_env ''/p/lib/Bad.svelte'' = Inr ''<bad''"
    by (simp add: demo_env_def)
  have 2: "fst (compileSvelte demo_env demo_options ''/p/lib/Bad.svelte'' ''<bad'' False
                  ([], logProgress demo_env False False ?st))
           = Inl (JsError ''ParseError'' ''unexpected end of input'')"
    by (simp add: demo_run1) (simp add: demo_eval)
  show ?thesis
    using 1 onLoad_compile_throws [OF 1 2]
    by (simp add: demo_run1) (simp add: demo_env_def)
qed

subsection \<open>The resolution of the packages (claim C4)\<close>

lemma map_update_same: "f y = f (xs ! i) \<Longrightarrow> map f (xs[i := y]) = map f xs"
  by (induction xs arbitrary: i) (auto split: nat.splits)

lemma resolve_begin_miss:
  "packages rs = [] \<Longrightarrow>
   resolve_begin e i (pending, rs)
     = (pending @ [(i, findClosestPkgJsonPath e (filename (r_stats rs ! i)))],
        rs\<lparr>lookups := lookups rs @ [filename (r_stats rs ! i)]\<rparr>)"
  by (simp add: resolve_begin_def Let_def)

lemma begin_phase:
  "k \<le> length stats0 \<Longrightarrow>
   foldl (\<lambda>acc i. resolve_begin e i acc)
     ([], \<lparr>r_stats = stats0, packages = [], lookups = [], rejected = None\<rparr>) [0..<k]
   = (map (\<lambda>i. (i, findClosestPkgJsonPath e (filename (stats0 ! i)))) [0..<k],
      \<lparr>r_stats = stats0, packages = [], lookups = map filename (take k stats0), rejected = None\<rparr>)"
proof (induction k)
  case 0
  then show ?case by simp
next
  case (Suc k)
  then have "k < length stats0" by simp
  then have "take (Suc k) stats0 = take k stats0 @ [stats0 ! k]"
    by (simp add: take_Suc_conv_app_nth)
  with Suc show ?case
    by (simp add: resolve_begin_miss)
qed

lemma resolve_resume_lookups: "lookups (resolve_resume e k rs) = lookups rs"
  by (cases k) (simp add: resolve_resume_def split: option.splits sum.splits)

lemma foldl_resume_lookups: "lookups (foldl (\<lambda>rs k. resolve_resume e k rs) rs ks) = lookups rs"
  by (induction ks arbitrary: rs) (simp_all add: resolve_resume_lookups)

lemma resolve_packages_lookups:
  "lookups (resolve_packages e sched stats0) = map filename stats0"
  by (simp add: resolve_packages_def begin_phase foldl_resume_lookups)

lemma resolve_resume_timestamps:
  "map timestamps (r_stats (resolve_resume e k rs)) = map timestamps (r_stats rs)"
  by (cases k) (simp add: resolve_resume_def map_update_same split: option.splits sum.splits)

lemma foldl_resume_timestamps:
  "map timestamps (r_stats (foldl (\<lambda>rs k. resolve_resume e k rs) rs ks)) = map timestamps (r_stats rs)"
  by (induction ks arbitrary: rs) (simp_all add: resolve_resume_timestamps)

lemma resolve_packages_timestamps:
  "map timestamps (r_stats (resolve_packages e sched stats0)) = map timestamps stats0"
  by (simp add: resolve_packages_def begin_phase foldl_resume_timestamps)

lemma set_pick_order: "set (pick_order cs xs) = set xs"
proof (induction cs xs rule: pick_order.induct)
  case (1 cs)
  then show ?case by simp
next
  case (2 v va)
  then show ?case by simp
next
  case (3 c cs x xs)
  let ?ys = "x # xs"
  let ?k = "c mod length ?ys"
  have k: "?k < length ?ys" by simp
  have "set ?ys = set (take ?k ?ys @ ?ys ! ?k # drop (Suc ?k) ?ys)"
    using id_take_nth_drop [OF k] by simp
  then have "set ?ys = insert (?ys ! ?k) (set (take ?k ?ys @ drop (Suc ?k) ?ys))"
    by simp
  moreover have "set (pick_order cs (take ?k ?ys @ drop (Suc ?k) ?ys)) = set (take ?k ?ys @ drop (Suc ?k) ?ys)"
    using 3 [of ?k] by simp
  ultimately show ?case
    by (simp add: Let_def)
qed

text \<open>
  \<open>pick_order\<close> reaches every order: any arrangement of distinct pending callbacks is
  \<open>pick_order cs\<close> for some choices \<open>cs\<close>, and \<open>pick_order cs\<close> always is an arrangement of
  them.
\<close>

lemma pick_order_complete:
  assumes "distinct xs" and "distinct ys" and "set ys = set xs"
  shows "\<exists>cs. pick_order cs xs = ys"
  using assms
proof (induction ys arbitrary: xs)
  case Nil
  then show ?case by simp
next
  case (Cons y ys)
  then have "y \<in> set xs" by auto
  then obtain k where k: "k < length xs" "xs ! k = y"
    by (auto simp: in_set_conv_nth)
  define a b where "a = take k xs" and "b = drop (Suc k) xs"
  have xs: "xs = a @ y # b"
    using id_take_nth_drop [OF k(1)] k(2) by (simp add: a_def b_def)
  have d: "distinct (a @ b)" and ny: "y \<notin> set (a @ b)"
    using Cons.prems(1) unfolding xs by auto
  have "set ys = set (a @ b)"
    using Cons.prems(2,3) ny unfolding xs by auto
  with Cons.IH [OF d] Cons.prems(2) obtain cs where cs: "pick_order cs (a @ b) = ys"
    by auto
  obtain x xs' where c: "xs = x # xs'"
    using k(1) by (cases xs) auto
  have "pick_order (k # cs) (x # xs') = (x # xs') ! k # pick_order cs (take k (x # xs') @ drop (Suc k) (x # xs'))"
    using k(1) unfolding c by (simp add: Let_def)
  then have "pick_order (k # cs) xs = y # ys"
    using k(2) cs unfolding c [symmetric] a_def b_def by simp
  then show ?case by blast
qed

lemma named_idem: "named e (named e s) = named e s"
  by (simp add: named_def resolved_name_def split: option.splits sum.splits)

lemma named_cases:
  "named e s =
     (case findClosestPkgJsonPath e (filename s) of
        None \<Rightarrow> s
      | Some pp \<Rightarrow> (if pp = [] then s
                    else (case manifest_name e pp of Inl err \<Rightarrow> s | Inr nm \<Rightarrow> s\<lparr>packagename := nm\<rparr>)))"
  by (simp add: named_def resolved_name_def split: option.splits sum.splits)

lemma resume_partly:
  assumes "partly e sts D (r_stats rs)" and "i < length sts"
  shows "partly e sts (insert i D)
           (r_stats (resolve_resume e (i, findClosestPkgJsonPath e (filename (sts ! i))) rs))"
proof -
  have fn: "filename (r_stats rs ! i) = filename (sts ! i)"
    using assms by (auto simp: partly_def named_def)
  have nm: "named e (r_stats rs ! i) = named e (sts ! i)"
    using assms by (auto simp: partly_def named_idem)
  have len: "length (r_stats rs) = length sts"
    using assms by (simp add: partly_def)
  have upd: "partly e sts (insert i D) ((r_stats rs)[i := named e (sts ! i)])"
    using assms by (auto simp: partly_def nth_list_update)
  have same: "named e (sts ! i) = r_stats rs ! i \<Longrightarrow> partly e sts (insert i D) (r_stats rs)"
    using upd by (metis list_update_id)
  show ?thesis
  proof (cases "findClosestPkgJsonPath e (filename (sts ! i))")
    case None
    then have "named e (sts ! i) = r_stats rs ! i"
      using nm fn by (simp add: named_cases [of e "r_stats rs ! i"])
    with None show ?thesis
      using same by (simp add: resolve_resume_def)
  next
    case (Some pp)
    show ?thesis
    proof (cases "pp = []")
      case True
      then have "named e (sts ! i) = r_stats rs ! i"
        using nm fn Some by (simp add: named_cases [of e "r_stats rs ! i"])
      with Some True show ?thesis
        using same by (simp add: resolve_resume_def)
    next
      case False
      show ?thesis
      proof (cases "manifest_name e pp")
        case (Inl err)
        then have "named e (sts ! i) = r_stats rs ! i"
          using nm fn Some False by (simp add: named_cases [of e "r_stats rs ! i"])
        with Some False Inl show ?thesis
          using same by (simp add: resolve_resume_def manifest_of_def split: option.splits)
      next
        case (Inr nm')
        then have "named e (sts ! i) = (r_stats rs ! i)\<lparr>packagename := nm'\<rparr>"
          using nm fn Some False by (simp add: named_cases [of e "r_stats rs ! i"])
        with Some False Inr show ?thesis
          using upd by (simp add: resolve_resume_def manifest_of_def)
      qed
    qed
  qed
qed

lemma foldl_resume_partly:
  assumes "partly e sts D (r_stats rs)"
    and "\<forall>k \<in> set ks. fst k < length sts \<and> snd k = findClosestPkgJsonPath e (filename (sts ! fst k))"
  shows "partly e sts (D \<union> fst ` set ks) (r_stats (foldl (\<lambda>rs k. resolve_resume e k rs) rs ks))"
  using assms
proof (induction ks arbitrary: rs D)
  case Nil
  then show ?case by simp
next
  case (Cons k ks)
  obtain i pp where k: "k = (i, pp)" by (cases k)
  with Cons.prems have i: "i < length sts" and pp: "pp = findClosestPkgJsonPath e (filename (sts ! i))"
    by auto
  have "partly e sts (insert i D) (r_stats (resolve_resume e k rs))"
    using resume_partly [OF Cons.prems(1) i] k pp by simp
  from Cons.IH [OF this] Cons.prems(2) k show ?case
    by simp
qed

lemma resolve_packages_names:
  "r_stats (resolve_packages e sched sts) = map (\<lambda>s. s\<lparr>packagename := resolved_name e s\<rparr>) sts"
proof -
  let ?pending = "map (\<lambda>i. (i, findClosestPkgJsonPath e (filename (sts ! i)))) [0..<length sts]"
  let ?rs = "\<lparr>r_stats = sts, packages = [], lookups = map filename (take (length sts) sts), rejected = None\<rparr>"
  have 0: "partly e sts {} (r_stats ?rs)"
    by (simp add: partly_def)
  have 1: "\<forall>k \<in> set (pick_order sched ?pending).
             fst k < length sts \<and> snd k = findClosestPkgJsonPath e (filename (sts ! fst k))"
    by (auto simp: set_pick_order)
  have "fst ` set (pick_order sched ?pending) = {0..<length sts}"
    by (auto simp: set_pick_order image_iff)
  with foldl_resume_partly [OF 0 1]
  have "partly e sts {0..<length sts}
          (r_stats (foldl (\<lambda>rs k. resolve_resume e k rs) ?rs (pick_order sched ?pending)))"
    by simp
  then have "r_stats (foldl (\<lambda>rs k. resolve_resume e k rs) ?rs (pick_order sched ?pending))
               = map (named e) sts"
    by (auto simp: partly_def intro: nth_equalityI)
  then show ?thesis
    by (simp add: resolve_packages_def begin_phase named_def)
qed

lemma resolve_resume_rejected:
  assumes "\<forall>p err. manifest_name e p \<noteq> Inl err" and "rejected rs = None"
  shows "rejected (resolve_resume e k rs) = None"
  using assms
  by (cases k) (auto simp: resolve_resume_def manifest_of_def split: option.splits sum.splits)

lemma foldl_resume_rejected:
  assumes "\<forall>p err. manifest_name e p \<noteq> Inl err" and "rejected rs = None"
  shows "rejected (foldl (\<lambda>rs k. resolve_resume e k rs) rs ks) = None"
  using assms(2)
  by (induction ks arbitrary: rs) (simp_all add: resolve_resume_rejected [OF assms(1)])

lemma resolve_packages_rejected:
  assumes "\<forall>p err. manifest_name e p \<noteq> Inl err"
  shows "rejected (resolve_packages e sched sts) = None"
  by (simp add: resolve_packages_def begin_phase foldl_resume_rejected [OF assms])

text \<open>
  Claim C4: \<^verbatim>\<open>findClosestPkgJsonPath\<close> is called once for every stat, in the order of the
  stats and whatever the order in which the lookups complete, because every callback
  searches \<open>packages\<close> before any callback has pushed to it. Two files under the directory
  of one package are looked up twice.
\<close>

theorem lookup_repeated_within_package:
  "lookups (resolve_packages e sched sts) = map filename sts
   \<and> findClosestPkgJsonPath demo_env ''/p/lib/A.svelte'' = Some ''/p/lib/package.json''
   \<and> findClosestPkgJsonPath demo_env ''/p/lib/B.svelte'' = Some ''/p/lib/package.json''
   \<and> strip_package_json ''/p/lib/package.json'' = ''/p/lib/''
   \<and> startsWith ''/p/lib/A.svelte'' ''/p/lib/'' \<and> startsWith ''/p/lib/B.svelte'' ''/p/lib/''
   \<and> lookups (resolve_packages demo_env sched
        [demo_stat ''/p/lib/A.svelte'' None 3000 4000, demo_stat ''/p/lib/B.svelte'' None 6000 7000])
       = [''/p/lib/A.svelte'', ''/p/lib/B.svelte'']"
  by (simp add: resolve_packages_lookups demo_env_def startsWith_def strip_package_json_def demo_stat_def)

subsection \<open>The timestamps of the stats (claim C8)\<close>

lemma compile_timed_cong:
  "timestamps s = timestamps s' \<Longrightarrow> compile_timed s = compile_timed s'"
  by (simp add: compile_timed_def)

lemma list_all_compile_timed_cong:
  "map timestamps xs = map timestamps ys \<Longrightarrow> list_all compile_timed xs = list_all compile_timed ys"
proof (induction xs arbitrary: ys)
  case Nil
  then show ?case by simp
next
  case (Cons x xs)
  then obtain y ys' where "ys = y # ys'" by (cases ys) auto
  with Cons show ?case
    using compile_timed_cong [of x y] by auto
qed

lemma compile_timed_duration:
  assumes "compile_timed s"
  shows "length (timestamps s) = 2
       \<and> event (timestamps s ! 0) = ''compileStart'' \<and> event (timestamps s ! 1) = ''compiled''
       \<and> findIndex (\<lambda>t. event t = ''compiled'') (timestamps s) = 1
       \<and> duration (timestamps s) ''compiled'' None = Inr (ts (timestamps s ! 1) - ts (timestamps s ! 0))"
proof -
  from assms obtain a b where ab: "timestamps s = [a, b]" "event a = ''compileStart''" "event b = ''compiled''"
    by (auto simp: compile_timed_def split: list.splits)
  then show ?thesis
    by (simp add: duration_def findIndex_def at_index_def)
qed

lemma onLoad_timed:
  assumes "list_all compile_timed (stats st)"
  shows "list_all compile_timed (stats (snd (onLoad e options ssr fname st)))"
proof (cases "readFileSync e fname")
  case (Inl err)
  with assms show ?thesis by (simp add: onLoad_def Let_def logProgress_stats)
next
  case (Inr code)
  obtain r tss st2 where c: "compileSvelte e options fname code ssr ([], logProgress e ssr False st) = (r, tss, st2)"
    by (cases "compileSvelte e options fname code ssr ([], logProgress e ssr False st)") auto
  have st2: "stats st2 = stats st"
    using compileSvelte_stats [of e options fname code ssr "([], logProgress e ssr False st)"] c
    by (simp add: logProgress_stats)
  show ?thesis
  proof (cases r)
    case (Inl err)
    with Inr c st2 assms show ?thesis by (simp add: onLoad_def Let_def)
  next
    case (Inr contents)
    with c obtain t0 t1 where
      "tss = [\<lparr>event = ''compileStart'', ts = t0\<rparr>, \<lparr>event = ''compiled'', ts = t1\<rparr>]"
      using compileSvelte_timestamps by blast
    then have "compile_timed \<lparr>filename = fname, packagename = None, timestamps = tss\<rparr>"
      by (simp add: compile_timed_def)
    with \<open>readFileSync e fname = Inr code\<close> Inr c st2 assms show ?thesis
      by (simp add: onLoad_def Let_def)
  qed
qed

lemma logStats_stats:
  "stats (snd (logStats e ssr sched st)) = r_stats (resolve_packages e sched (stats st))"
  by (simp add: logStats_def Let_def split: option.splits sum.splits)

lemma onEnd_timed:
  assumes "list_all compile_timed (stats st)"
  shows "list_all compile_timed (stats (snd (onEnd e ssr sched st)))"
proof -
  have "list_all compile_timed (r_stats (resolve_packages e sched (stats st)))"
    using assms list_all_compile_timed_cong [OF resolve_packages_timestamps [of e sched "stats st"]]
    by simp
  with assms show ?thesis
    by (simp add: onEnd_def logStats_stats logProgress_stats)
qed

lemma run_timed:
  assumes "list_all compile_timed (stats st)"
  shows "list_all compile_timed (stats (run e options ssr calls st))"
  using assms
proof (induction calls arbitrary: st)
  case Nil
  then show ?case by (simp add: run_def)
next
  case (Cons c calls)
  have "list_all compile_timed (stats (host_step e options ssr st c))"
    using Cons.prems by (cases c) (simp_all add: onLoad_timed onEnd_timed onStart_def)
  then show ?case
    using Cons.IH by (simp add: run_def)
qed

text \<open>
  Claim C8: after any calls of the host on a plugin instance, every stat in \<open>stats\<close> has
  exactly the two timestamps \<^verbatim>\<open>compileStart\<close> and \<^verbatim>\<open>compiled\<close>, in this order, so that
  \<^verbatim>\<open>duration(timestamps, 'compiled')\<close> finds \<^verbatim>\<open>compiled\<close> at index 1, reads the indices 1
  and 0, both in range, and returns the difference of the two readings.
\<close>

theorem appended_stats_have_compile_events:
  assumes "plugin_setup plugin_names = Some st0"
    and "s \<in> set (stats (run e options ssr calls st0))"
  shows "compile_timed s
       \<and> length (timestamps s) = 2
       \<and> event (timestamps s ! 0) = ''compileStart'' \<and> event (timestamps s ! 1) = ''compiled''
       \<and> findIndex (\<lambda>t. event t = ''compiled'') (timestamps s) = 1
       \<and> duration (timestamps s) ''compiled'' None = Inr (ts (timestamps s ! 1) - ts (timestamps s ! 0))"
proof -
  from assms(1) have "stats st0 = []"
    by (auto simp: plugin_setup_def split: if_splits)
  then have "list_all compile_timed (stats (run e options ssr calls st0))"
    by (intro run_timed) simp
  with assms(2) have "compile_timed s"
    by (simp add: list_all_iff)
  then show ?thesis
    using compile_timed_duration by blast
qed

theorem appended_stats_have_compile_events_witness:
  "plugin_setup [] = Some demo_state
   \<and> demo_stat ''/p/lib/A.svelte'' None 3000 4000
        \<in> set (stats (run demo_env demo_options False [Start, Load ''/p/lib/A.svelte''] demo_state))
   \<and> duration (timestamps (demo_stat ''/p/lib/A.svelte'' None 3000 4000)) ''compiled'' None = Inr 1000"
proof -
  have 1: "plugin_setup [] = Some demo_state"
    by (simp add: plugin_setup_def demo_state_def)
  have 2: "demo_stat ''/p/lib/A.svelte'' None 3000 4000
        \<in> set (stats (run demo_env demo_options False [Start, Load ''/p/lib/A.svelte''] demo_state))"
    by (simp add: demo_run1)
  show ?thesis
    using 1 2 appended_stats_have_compile_events [OF 1 2]
    by (simp add: demo_stat_def)
qed

subsection \<open>The progress lines of a pass (claim C9)\<close>

lemma progress_times_append: "progress_times (xs @ ys) = progress_times xs @ progress_times ys"
  by (induction xs rule: progress_times.induct) simp_all

lemma pass_inv_quiet:
  assumes "pass_inv start out0 st"
    and "bundleStart st' = bundleStart st" and "lastProgressLog st' = lastProgressLog st"
    and "out st' = out st @ evs" and "progress_times evs = []"
  shows "pass_inv start out0 st'"
  using assms by (auto simp: pass_inv_def progress_times_append Let_def)

lemma pass_inv_progress:
  assumes "pass_inv start out0 st"
    and "bundleStart st' = bundleStart st" and "lastProgressLog st' = t"
    and "out st' = out st @ [Progress t msg d]"
  shows "pass_inv start out0 st'"
  using assms by (auto simp: pass_inv_def progress_times_append Let_def)

lemma logProgress_inv:
  assumes "pass_inv start out0 st"
  shows "pass_inv start out0 (logProgress e ssr d st)"
proof (cases "d \<or> progress_due (perf_now e (ticks st)) st")
  case True
  then show ?thesis
    by (intro pass_inv_progress [OF assms, where t = "perf_now e (ticks st)"])
       (auto simp: logProgress_def Let_def)
next
  case False
  then show ?thesis
    by (intro pass_inv_quiet [OF assms, where evs = "[]"]) (auto simp: logProgress_def Let_def)
qed

lemma takeTimestamp_frame:
  "bundleStart (snd (takeTimestamp e ev w)) = bundleStart (snd w)
   \<and> lastProgressLog (snd (takeTimestamp e ev w)) = lastProgressLog (snd w)
   \<and> out (snd (takeTimestamp e ev w)) = out (snd w)"
  by (cases w) (simp add: takeTimestamp_def)

lemma timed_compile_frame:
  "bundleStart (snd (snd (timed_compile e src opts w))) = bundleStart (snd w)
   \<and> lastProgressLog (snd (snd (timed_compile e src opts w))) = lastProgressLog (snd w)
   \<and> out (snd (snd (timed_compile e src opts w))) = out (snd w)"
  by (simp add: timed_compile_def Let_def takeTimestamp_frame split: sum.splits)

lemma log_dynamic_frame:
  "bundleStart (log_dynamic e fname dyn st) = bundleStart st
   \<and> lastProgressLog (log_dynamic e fname dyn st) = lastProgressLog st
   \<and> (\<exists>evs. out (log_dynamic e fname dyn st) = out st @ evs \<and> progress_times evs = [])"
  by (simp add: log_dynamic_def split: option.splits)

lemma compileSvelte_frame:
  "bundleStart (snd (snd (compileSvelte e options fname code ssr w))) = bundleStart (snd w)
   \<and> lastProgressLog (snd (snd (compileSvelte e options fname code ssr w))) = lastProgressLog (snd w)
   \<and> (\<exists>evs. out (snd (snd (compileSvelte e options fname code ssr w))) = out (snd w) @ evs
          \<and> progress_times evs = [])"
  using log_dynamic_frame [of e fname _ "snd w"]
  by (simp add: compileSvelte_def timed_compile_frame split: sum.splits prod.splits)

lemma compileSvelte_inv:
  assumes "pass_inv start out0 (snd w)"
  shows "pass_inv start out0 (snd (snd (compileSvelte e options fname code ssr w)))"
  using compileSvelte_frame [of e options fname code ssr w] pass_inv_quiet [OF assms]
  by blast

lemma pass_inv_stats: "pass_inv start out0 (st\<lparr>stats := x\<rparr>) = pass_inv start out0 st"
  by (simp add: pass_inv_def)

lemma onLoad_inv:
  assumes "pass_inv start out0 st"
  shows "pass_inv start out0 (snd (onLoad e options ssr fname st))"
proof -
  have 1: "pass_inv start out0 (logProgress e ssr False st)"
    using assms by (rule logProgress_inv)
  show ?thesis
  proof (cases "readFileSync e fname")
    case (Inl err)
    with 1 show ?thesis by (simp add: onLoad_def Let_def)
  next
    case (Inr code)
    obtain r tss st2 where c: "compileSvelte e options fname code ssr ([], logProgress e ssr False st) = (r, tss, st2)"
      by (cases "compileSvelte e options fname code ssr ([], logProgress e ssr False st)") auto
    have "pass_inv start out0 st2"
      using compileSvelte_inv [of start out0 "([], logProgress e ssr False st)" e options fname code ssr] 1 c
      by simp
    then show ?thesis
      using Inr c by (cases r) (simp_all add: onLoad_def Let_def pass_inv_stats)
  qed
qed

lemma logStats_inv:
  assumes "pass_inv start out0 st"
  shows "pass_inv start out0 (snd (logStats e ssr sched st))"
proof -
  have "pass_inv start out0 (st\<lparr>stats := x\<rparr>)" for x
    using assms by (simp add: pass_inv_stats)
  moreover have "pass_inv start out0 (st\<lparr>stats := x, out := out st @ [Info a b]\<rparr>)" for x a b
    by (rule pass_inv_quiet [OF assms, where evs = "[Info a b]"]) simp_all
  ultimately show ?thesis
    by (simp add: logStats_def Let_def split: option.splits sum.splits)
qed

lemma onEnd_inv:
  assumes "pass_inv start out0 st"
  shows "pass_inv start out0 (snd (onEnd e ssr sched st))"
  using assms by (simp add: onEnd_def logStats_inv logProgress_inv)

lemma onStart_inv: "pass_inv (perf_now e (ticks st0)) (out st0) (onStart e st0)"
  by (simp add: pass_inv_def onStart_def)

lemma run_inv:
  assumes "pass_inv start out0 st" and "Start \<notin> set calls"
  shows "pass_inv start out0 (run e options ssr calls st)"
  using assms
proof (induction calls arbitrary: st)
  case Nil
  then show ?case by (simp add: run_def)
next
  case (Cons c calls)
  have "pass_inv start out0 (host_step e options ssr st c)"
    using Cons.prems by (cases c) (simp_all add: onLoad_inv onEnd_inv)
  then show ?case
    using Cons by (simp add: run_def)
qed

lemma progress_due_in_pass:
  assumes "pass_inv start out0 st" and "0 \<le> start"
  shows "progress_due now st \<longrightarrow>
           (let sofar = progress_times (drop (length out0) (out st))
            in (sofar \<noteq> [] \<and> now - last sofar > 200) \<or> (sofar = [] \<and> now - start > 2000))"
    and "(let sofar = progress_times (drop (length out0) (out st))
          in (sofar \<noteq> [] \<and> last sofar \<noteq> 0 \<and> now - last sofar > 200) \<or> (sofar = [] \<and> now - start > 2000))
         \<longrightarrow> progress_due now st"
  using assms
  by (auto simp: pass_inv_def progress_due_def Let_def progressThrottle_def progressDelay_def
           split: if_splits)

text \<open>
  Claim C9: in a pass (the calls after an \<^verbatim>\<open>onStart\<close>, with a clock whose readings are not
  negative), a call of \<^verbatim>\<open>logProgress\<close> logs one line or nothing, and it logs a line only if
  it is the \<open>done\<close> call, or a line was emitted before in this pass and more than 200ms
  have passed since the last one, or none was emitted yet and more than 2000ms have passed
  since the start of the pass. Conversely each of these makes it log a line, unless the
  last line was emitted at the clock reading \<open>0\<close>.
\<close>

theorem progress_emitted_only_when_due:
  assumes "\<forall>n. 0 \<le> perf_now e n" and "Start \<notin> set calls"
  shows "(let st = run e options ssr (Start # calls) st0;
              now = perf_now e (ticks st);
              start = perf_now e (ticks st0);
              sofar = progress_times (drop (length (out st0)) (out st));
              line = Progress now (progress_line e ssr done now st) done
          in (out (logProgress e ssr done st) = out st @ [line] \<or> out (logProgress e ssr done st) = out st)
             \<and> (out (logProgress e ssr done st) = out st @ [line] \<longrightarrow>
                   done \<or> (sofar \<noteq> [] \<and> now - last sofar > 200) \<or> (sofar = [] \<and> now - start > 2000))
             \<and> (done \<or> (sofar \<noteq> [] \<and> last sofar \<noteq> 0 \<and> now - last sofar > 200)
                   \<or> (sofar = [] \<and> now - start > 2000) \<longrightarrow>
                   out (logProgress e ssr done st) = out st @ [line]))"
proof -
  define st where "st = run e options ssr (Start # calls) st0"
  have "st = run e options ssr calls (onStart e st0)"
    by (simp add: st_def run_def)
  then have inv: "pass_inv (perf_now e (ticks st0)) (out st0) st"
    using run_inv [OF onStart_inv assms(2)] by simp
  have s: "0 \<le> perf_now e (ticks st0)"
    using assms(1) by simp
  show ?thesis
    unfolding st_def [symmetric] Let_def
    using progress_due_in_pass [OF inv s, of "perf_now e (ticks st)"]
    by (auto simp: logProgress_def Let_def)
qed


theorem progress_emitted_only_when_due_witness:
  "(\<forall>n. 0 \<le> perf_now demo_env n) \<and> Start \<notin> set [Load ''/p/lib/A.svelte'']
   \<and> out (logProgress demo_env False False
            (run demo_env demo_options False [Start, Load ''/p/lib/A.svelte''] demo_state))
     = [Progress 5000
          (progress_line demo_env False False 5000
             (run demo_env demo_options False [Start, Load ''/p/lib/A.svelte''] demo_state)) False]
   \<and> out (logProgress demo_env False False
            (run demo_env demo_options False [Start] demo_state)) = []"
proof -
  have 1: "\<forall>n. 0 \<le> perf_now demo_env n"
    by (simp add: demo_env_def)
  have 2: "Start \<notin> set [Load ''/p/lib/A.svelte'']" and 3: "Start \<notin> set []"
    by simp_all
  have t: "perf_now demo_env 4 = 5000" "perf_now demo_env 0 = 1000" "perf_now demo_env (Suc 0) = 2000"
    "ticks demo_state = 0" "out demo_state = []"
    by (simp_all add: demo_env_def demo_state_def)
  have r0: "run demo_env demo_options False [Start] demo_state
     = \<lparr>stats = [], bundleStart = Some 1000, lastProgressLog = 0, ticks = 1, out = []\<rparr>"
    by (simp add: demo_eval)
  show ?thesis
    using 1 2 progress_emitted_only_when_due [OF 1 2, of demo_options False demo_state False]
      progress_emitted_only_when_due [OF 1 3, of demo_options False demo_state False]
    by (auto simp add: demo_run1 r0 t Let_def)
qed

subsection \<open>The groups of the report (claim C7)\<close>

lemma group_stats_append:
  "group_stats dadd (xs @ ys) acc =
     (case group_stats dadd xs acc of Inl err \<Rightarrow> Inl err | Inr g \<Rightarrow> group_stats dadd ys g)"
  by (induction xs arbitrary: acc) (simp_all split: sum.splits)

lemma map_fst_update_group: "map fst (update_group k f g) = map fst g"
  by (induction g) auto

lemma map_of_update_group:
  "map_of (update_group k f g) k' = (if k' = k then map_option f (map_of g k) else map_of g k')"
  by (induction g) auto

lemma compile_timed_dur:
  "compile_timed s \<Longrightarrow> duration (timestamps s) ''compiled'' None = Inr (compile_duration s)"
  by (auto simp: compile_timed_def compile_duration_def duration_def findIndex_def at_index_def
           split: list.splits)

lemma grouped_ok_lookup:
  "grouped_ok dadd sts grouped \<Longrightarrow>
     map_of grouped k = (if k \<in> stat_key ` set sts then Some (expected_group dadd sts k) else None)"
  unfolding grouped_ok_def by blast

lemma grouped_ok_distinct: "grouped_ok dadd sts grouped \<Longrightarrow> distinct (map fst grouped)"
  unfolding grouped_ok_def by blast

lemma grouped_ok_keys:
  assumes "grouped_ok dadd sts grouped"
  shows "fst ` set grouped = stat_key ` set sts"
proof -
  have "dom (map_of grouped) = stat_key ` set sts"
    using grouped_ok_lookup [OF assms] by (auto simp: dom_def split: if_splits)
  then show ?thesis
    by (simp add: dom_map_of_conv_image_fst)
qed

lemma expected_group_snoc:
  "expected_group dadd (sts @ [s]) k =
     (if stat_key s = k
      then add_stat dadd (compile_duration s)
             (if k \<in> stat_key ` set sts then expected_group dadd sts k
              else \<lparr>name = packagename s, count = 0, compileTime = 0\<rparr>)
      else expected_group dadd sts k)"
proof -
  have "k \<notin> stat_key ` set sts \<Longrightarrow> [x \<leftarrow> sts. stat_key x = k] = []"
    by (auto simp: filter_empty_conv)
  moreover have "k \<in> stat_key ` set sts \<Longrightarrow> [x \<leftarrow> sts. stat_key x = k] \<noteq> []"
    by (auto simp: filter_empty_conv)
  ultimately show ?thesis
    by (auto simp: expected_group_def add_stat_def)
qed

lemma group_stat_ok:
  assumes ok: "grouped_ok dadd sts grouped" and t: "compile_timed s"
    and k: "stat_key s \<notin> set Object_prototype_keys"
  shows "\<exists>grouped'. group_stat dadd s grouped = Inr grouped' \<and> grouped_ok dadd (sts @ [s]) grouped'"
proof (cases "stat_key s \<in> stat_key ` set sts")
  case True
  let ?g' = "update_group (stat_key s) (add_stat dadd (compile_duration s)) grouped"
  have m: "map_of grouped (stat_key s) = Some (expected_group dadd sts (stat_key s))"
    using grouped_ok_lookup [OF ok, of "stat_key s"] True by simp
  have 1: "group_stat dadd s grouped = Inr ?g'"
    using m compile_timed_dur [OF t] by (simp add: group_stat_def stat_key_def Let_def)
  have "map_of ?g' k' = (if k' \<in> stat_key ` set (sts @ [s])
                          then Some (expected_group dadd (sts @ [s]) k') else None)" for k'
    using grouped_ok_lookup [OF ok, of k'] True m
    by (auto simp: map_of_update_group expected_group_snoc)
  then have "grouped_ok dadd (sts @ [s]) ?g'"
    using grouped_ok_distinct [OF ok] unfolding grouped_ok_def
    by (simp only: map_fst_update_group) blast
  with 1 show ?thesis by blast
next
  case False
  let ?new = "add_stat dadd (compile_duration s) \<lparr>name = packagename s, count = 0, compileTime = 0\<rparr>"
  let ?g' = "grouped @ [(stat_key s, ?new)]"
  have n: "map_of grouped (stat_key s) = None"
    using grouped_ok_lookup [OF ok, of "stat_key s"] False by simp
  have 1: "group_stat dadd s grouped = Inr ?g'"
    using n k compile_timed_dur [OF t] by (simp add: group_stat_def stat_key_def Let_def)
  have "map_of ?g' k' = (if k' \<in> stat_key ` set (sts @ [s])
                          then Some (expected_group dadd (sts @ [s]) k') else None)" for k'
    using grouped_ok_lookup [OF ok, of k'] False n
    by (auto simp: map_add_def expected_group_snoc split: option.splits)
  moreover have "distinct (map fst ?g')"
    using grouped_ok_distinct [OF ok] grouped_ok_keys [OF ok] False by auto
  ultimately have "grouped_ok dadd (sts @ [s]) ?g'"
    unfolding grouped_ok_def by blast
  with 1 show ?thesis by blast
qed

lemma group_stats_ok:
  assumes "list_all compile_timed sts"
    and "list_all (\<lambda>s. stat_key s \<notin> set Object_prototype_keys) sts"
  shows "\<exists>grouped. group_stats dadd sts [] = Inr grouped \<and> grouped_ok dadd sts grouped"
  using assms
proof (induction sts rule: rev_induct)
  case Nil
  then show ?case by (simp add: grouped_ok_def)
next
  case (snoc s sts)
  then obtain grouped where g: "group_stats dadd sts [] = Inr grouped" "grouped_ok dadd sts grouped"
    by auto
  from snoc.prems have "compile_timed s" "stat_key s \<notin> set Object_prototype_keys"
    by simp_all
  from group_stat_ok [OF g(2) this] obtain grouped' where
    "group_stat dadd s grouped = Inr grouped'" "grouped_ok dadd (sts @ [s]) grouped'"
    by blast
  with g(1) show ?case
    by (simp add: group_stats_append)
qed

lemma set_Object_values: "set (Object_values obj) = snd ` set obj"
  by (auto simp: Object_values_def)

lemma length_Object_values: "length (Object_values obj) = length obj"
  by (simp add: Object_values_def sum_length_filter_compl)

lemma sorted_sort_groups: "sorted_wrt (\<lambda>a b. count b \<le> count a) (sort_groups gs)"
proof -
  have "sorted (map (\<lambda>g. - int (count g)) (sort_groups gs))"
    by (simp add: sort_groups_def)
  then show ?thesis
    by (simp add: sorted_wrt_map)
qed

lemma grouped_ok_values:
  assumes "grouped_ok dadd sts grouped"
  shows "snd ` set grouped = expected_group dadd sts ` stat_key ` set sts"
    and "length grouped = card (stat_key ` set sts)"
proof -
  note d = grouped_ok_distinct [OF assms] and ks = grouped_ok_keys [OF assms]
  show "snd ` set grouped = expected_group dadd sts ` stat_key ` set sts"
  proof (intro set_eqI iffI)
    fix g assume "g \<in> snd ` set grouped"
    then obtain k where kg: "(k, g) \<in> set grouped" by auto
    then have "map_of grouped k = Some g" using d by simp
    then show "g \<in> expected_group dadd sts ` stat_key ` set sts"
      using grouped_ok_lookup [OF assms, of k] by (auto split: if_splits)
  next
    fix g assume "g \<in> expected_group dadd sts ` stat_key ` set sts"
    then obtain k where k: "k \<in> stat_key ` set sts" "g = expected_group dadd sts k" by auto
    then have "map_of grouped k = Some g"
      using grouped_ok_lookup [OF assms, of k] by simp
    then have "(k, g) \<in> set grouped" by (rule map_of_SomeD)
    then show "g \<in> snd ` set grouped" by force
  qed
  have "card (fst ` set grouped) = length grouped"
    using d by (metis distinct_card length_map set_map)
  then show "length grouped = card (stat_key ` set sts)"
    using ks by simp
qed

text \<open>
  What the grouping does for stats that have both timestamps and whose keys are not names
  of \<^verbatim>\<open>Object.prototype\<close>, whatever the addition \<open>dadd\<close> of doubles is: one group per key,
  each with the number of its stats and the total of their durations as \<open>dadd\<close> builds it
  from \<open>0\<close> in the order of the stats (with rounding, this need not be the exact sum), in
  descending order of the number of files, and one row per group after the header.
\<close>

lemma grouping_by_package_name:
  assumes "list_all compile_timed sts"
    and "list_all (\<lambda>s. stat_key s \<notin> set Object_prototype_keys) sts"
  shows "\<exists>grouped. group_stats dadd sts [] = Inr grouped
           \<and> set (sort_groups (Object_values grouped)) = expected_group dadd sts ` stat_key ` set sts
           \<and> length (sort_groups (Object_values grouped)) = card (stat_key ` set sts)
           \<and> sorted_wrt (\<lambda>a b. count b \<le> count a) (sort_groups (Object_values grouped))
           \<and> length (stat_lines e (sort_groups (Object_values grouped))) = 1 + card (stat_key ` set sts)"
proof -
  from group_stats_ok [OF assms] obtain grouped where
    g: "group_stats dadd sts [] = Inr grouped" "grouped_ok dadd sts grouped"
    by blast
  have "set (sort_groups (Object_values grouped)) = expected_group dadd sts ` stat_key ` set sts"
    using grouped_ok_values(1) [OF g(2)] by (simp add: sort_groups_def set_Object_values)
  moreover have "length (sort_groups (Object_values grouped)) = card (stat_key ` set sts)"
    using grouped_ok_values(2) [OF g(2)] by (simp add: sort_groups_def length_Object_values)
  ultimately show ?thesis
    using g(1) sorted_sort_groups by (auto simp: stat_lines_def)
qed

lemma demo_stat_duration:
  "duration (timestamps (demo_stat f p t0 t1)) ''compiled'' None = Inr (t1 - t0)"
  by (simp add: demo_stat_def duration_def findIndex_def at_index_def)

lemma demo_stat_fields: "packagename (demo_stat f p t0 t1) = p" "filename (demo_stat f p t0 t1) = f"
  by (simp_all add: demo_stat_def)

lemma demo_inherited:
  "''undefined'' \<notin> set Object_prototype_keys" "''lib'' \<notin> set Object_prototype_keys"
  "''constructor'' \<in> set Object_prototype_keys"
  by (simp_all add: Object_prototype_keys_def)

lemma demo_not_index: "\<not> is_array_index ''undefined''" "\<not> is_array_index ''lib''"
  by (simp_all add: is_array_index_def)

lemma demo_counts:
  "show_nat 1 = ''1''" "show_nat 2 = ''2''" "show_nat (Suc 0) = ''1''"
  "show_nat 100 = ''100''" "show_nat 200 = ''200''" "show_nat 30 = ''30''" "show_nat 15 = ''15''"
  by (simp_all add: show_nat.simps digit_def)

lemma demo_fixed_1: "toFixed_exact 2 1 = ''1.00''"
  by (simp add: toFixed_exact_def demo_counts Let_def)

lemma demo_fixed_2: "toFixed_exact 2 2 = ''2.00''"
  by (simp add: toFixed_exact_def demo_counts Let_def)

lemma demo_fixed_3: "toFixed_exact 1 3 = ''3.0''"
  by (simp add: toFixed_exact_def demo_counts Let_def)

lemma demo_fixed_4: "toFixed_exact 1 (3 / 2) = ''1.5''"
  by (simp add: toFixed_exact_def demo_counts Let_def)

lemma demo_durations:
  "humanDuration (toFixed demo_env) 1000 = ''1.00s''"
  "humanDuration (toFixed demo_env) 2000 = ''2.00s''"
  "humanDuration (toFixed demo_env) 3 = ''3.0ms''"
  "humanDuration (toFixed demo_env) (3 / 2) = ''1.5ms''"
  using demo_fixed_3 demo_fixed_4
  by (simp_all add: humanDuration_def demo_env_def demo_fixed_1 demo_fixed_2)

lemma demo_double_add: "double_add demo_env a b = a + b"
  by (simp add: demo_env_def)

lemma demo_ctor_groups:
  "group_stats (double_add demo_env) [demo_stat ''/p/lib/A.svelte'' (Some ''lib'') 3000 4000,
      demo_stat ''/p/ctor/B.svelte'' (Some ''constructor'') 6000 7000] []
     = Inr [(''lib'', \<lparr>name = Some ''lib'', count = 1, compileTime = 1000\<rparr>)]"
  by (simp add: group_stat_def demo_stat_duration demo_stat_fields property_key_def demo_inherited
        add_stat_def demo_double_add Let_def)

lemma demo_ctor_table:
  "build_table demo_env
     [demo_stat ''/p/lib/A.svelte'' (Some ''lib'') 3000 4000,
      demo_stat ''/p/ctor/B.svelte'' (Some ''constructor'') 6000 7000]
   = Inr (join [CHR 0x0A]
            [join [CHR 0x09] [''library'', ''files'', '' time'', ''  avg''],
             join [CHR 0x09] [''lib    '', ''    1'', ''1.00s'', ''1.00s'']])"
  unfolding build_table_def demo_ctor_groups
  by (simp add: Object_values_def demo_not_index sort_groups_def stat_lines_def stat_line_def
        demo_durations demo_counts render_table_def columnWidths_def padStart_def padEnd_def
        width_at_def)

text \<open>
  Claim C7, at one file of a package \<open>lib\<close> and one of a package named \<open>constructor\<close>:
  \<^verbatim>\<open>grouped['constructor']\<close> is the inherited \<^verbatim>\<open>Object.prototype.constructor\<close>, no group is
  created for the second package, and the table has the header and the row of \<open>lib\<close> only.
\<close>

theorem package_named_constructor_has_no_row:
  "map packagename (r_stats (resolve_packages demo_env sched
      [demo_stat ''/p/lib/A.svelte'' None 3000 4000, demo_stat ''/p/ctor/B.svelte'' None 6000 7000]))
     = [Some ''lib'', Some ''constructor'']
   \<and> build_table demo_env (r_stats (resolve_packages demo_env sched
      [demo_stat ''/p/lib/A.svelte'' None 3000 4000, demo_stat ''/p/ctor/B.svelte'' None 6000 7000]))
     = Inr (join [CHR 0x0A]
            [join [CHR 0x09] [''library'', ''files'', '' time'', ''  avg''],
             join [CHR 0x09] [''lib    '', ''    1'', ''1.00s'', ''1.00s'']])"
proof -
  have "(demo_stat ''/p/lib/A.svelte'' None 3000 4000)
           \<lparr>packagename := resolved_name demo_env (demo_stat ''/p/lib/A.svelte'' None 3000 4000)\<rparr>
          = demo_stat ''/p/lib/A.svelte'' (Some ''lib'') 3000 4000"
    "(demo_stat ''/p/ctor/B.svelte'' None 6000 7000)
           \<lparr>packagename := resolved_name demo_env (demo_stat ''/p/ctor/B.svelte'' None 6000 7000)\<rparr>
          = demo_stat ''/p/ctor/B.svelte'' (Some ''constructor'') 6000 7000"
    by (simp_all add: resolved_name_def demo_stat_def demo_env_def startsWith_def)
  then show ?thesis
    by (simp add: resolve_packages_names demo_ctor_table) (simp add: demo_stat_def)
qed

subsection \<open>The table of the report (claims C2 and C3)\<close>

lemma four_cells: "length r = 4 \<Longrightarrow> \<exists>a b c d. r = [a, b, c, d]"
  by (auto simp: numeral_eq_Suc length_Suc_conv)

lemma widen_row_four:
  "widen_row 0 [Some a, Some b, Some c, Some d] [w0, w1, w2, w3]
     = Inr [max w0 (length a), max w1 (length b), max w2 (length c), max w3 (length d)]"
  by (simp add: max_def)

lemma widen_rows_four:
  assumes "list_all (\<lambda>r. length r = 4) rows"
  shows "widen_rows (map (map Some) rows) [w0, w1, w2, w3]
           = Inr [max w0 (column_width rows 0), max w1 (column_width rows 1),
                  max w2 (column_width rows 2), max w3 (column_width rows 3)]"
  using assms
proof (induction rows arbitrary: w0 w1 w2 w3)
  case Nil
  then show ?case by (simp add: column_width_def)
next
  case (Cons r rows)
  then obtain a b c d where r: "r = [a, b, c, d]"
    using four_cells [of r] by auto
  have "widen_rows (map (map Some) (r # rows)) [w0, w1, w2, w3]
          = widen_rows (map (map Some) rows)
              [max w0 (length a), max w1 (length b), max w2 (length c), max w3 (length d)]"
    using r by (simp add: widen_row_four del: widen_row.simps)
  also have "\<dots> = Inr [max (max w0 (length a)) (column_width rows 0),
                        max (max w1 (length b)) (column_width rows 1),
                        max (max w2 (length c)) (column_width rows 2),
                        max (max w3 (length d)) (column_width rows 3)]"
    using Cons by simp
  finally show ?case
    using r by (simp add: column_width_def max.assoc)
qed

lemma pad_cells_four:
  "pad_cells [w0, w1, w2, w3] 0 [Some a, Some b, Some c, Some d]
     = Inr [a @ replicate (w0 - length a) CHR '' '', replicate (w1 - length b) CHR '' '' @ b,
            replicate (w2 - length c) CHR '' '' @ c, replicate (w3 - length d) CHR '' '' @ d]"
  by (simp add: width_at_def padEnd_def padStart_def)

lemma table_rows_four:
  assumes "list_all (\<lambda>r. length r = 4) rows"
  shows "table_rows [w0, w1, w2, w3] (map (map Some) rows)
           = Inr (map (\<lambda>r. join [CHR 0x09]
                    [r ! 0 @ replicate (w0 - length (r ! 0)) CHR '' '',
                     replicate (w1 - length (r ! 1)) CHR '' '' @ r ! 1,
                     replicate (w2 - length (r ! 2)) CHR '' '' @ r ! 2,
                     replicate (w3 - length (r ! 3)) CHR '' '' @ r ! 3]) rows)"
  using assms
proof (induction rows)
  case Nil
  then show ?case by simp
next
  case (Cons r rows)
  then obtain a b c d where r: "r = [a, b, c, d]"
    using four_cells [of r] by auto
  have "pad_cells [w0, w1, w2, w3] 0 (map Some r)
     = Inr [a @ replicate (w0 - length a) CHR '' '', replicate (w1 - length b) CHR '' '' @ b,
            replicate (w2 - length c) CHR '' '' @ c, replicate (w3 - length d) CHR '' '' @ d]"
    using r pad_cells_four by simp
  with Cons r show ?case
    by (simp del: pad_cells.simps join.simps)
qed

lemma render_table_four:
  assumes "list_all (\<lambda>r. length r = 4) rows" and "rows \<noteq> []"
  shows "render_table (map (map Some) rows) = Inr (join [CHR 0x0A] (map (aligned_row rows) rows))"
proof -
  from assms obtain r rest where rows: "rows = r # rest"
    by (cases rows) auto
  with assms(1) obtain a b c d where r: "r = [a, b, c, d]"
    using four_cells [of r] by auto
  have "map (\<lambda>_. 0::nat) (hd (map (map Some) rows)) = [0, 0, 0, 0]"
    using rows r by simp
  then have w: "columnWidths (map (map Some) rows)
          = Inr [column_width rows 0, column_width rows 1, column_width rows 2, column_width rows 3]"
    using widen_rows_four [OF assms(1), of 0 0 0 0] by (simp add: columnWidths_def)
  show ?thesis
    unfolding render_table_def w
    using table_rows_four [OF assms(1)]
    by (simp add: aligned_row_def [abs_def])
qed

lemma stat_lines_named:
  assumes "list_all (\<lambda>g. name g \<noteq> None) groups"
  shows "stat_lines e groups = map (map Some) (named_rows e groups)"
proof -
  have "stat_line e g = map Some [property_key (name g), show_nat (count g),
                   humanDuration (toFixed e) (compileTime g),
                   humanDuration (toFixed e) (compileTime g / real (count g))]"
    if "name g \<noteq> None" for g
    using that by (auto simp: stat_line_def property_key_def Let_def)
  with assms have "map (stat_line e) groups = map (\<lambda>g. map Some [property_key (name g), show_nat (count g),
                   humanDuration (toFixed e) (compileTime g),
                   humanDuration (toFixed e) (compileTime g / real (count g))]) groups"
    by (simp add: list_all_iff)
  then show ?thesis
    by (simp add: stat_lines_def named_rows_def)
qed

text \<open>
  Claim C2, as the code has it: for groups that all have a name, the table is its rows
  joined by newlines, and every row is its first cell with spaces appended up to the width
  of the widest first cell, and each other cell with spaces put in front of it up to the
  width of the widest cell of its column (the header row included), joined by single tabs.
\<close>

theorem table_alignment:
  assumes "list_all (\<lambda>g. name g \<noteq> None) groups"
  shows "render_table (stat_lines e groups)
           = Inr (join [CHR 0x0A] (map (aligned_row (named_rows e groups)) (named_rows e groups)))"
proof -
  have "list_all (\<lambda>r. length r = 4) (named_rows e groups)"
    by (simp add: named_rows_def list_all_iff)
  moreover have "named_rows e groups \<noteq> []"
    by (simp add: named_rows_def)
  ultimately show ?thesis
    using render_table_four stat_lines_named [OF assms] by simp
qed

lemma demo_ui_lines:
  "stat_lines demo_env [\<lparr>name = Some ''ui'', count = 2, compileTime = 3\<rparr>]
     = [[Some ''library'', Some ''files'', Some ''time'', Some ''avg''],
        [Some ''ui'', Some ''2'', Some ''3.0ms'', Some ''1.5ms'']]"
  by (simp add: stat_lines_def stat_line_def demo_counts demo_durations)

theorem table_alignment_witness:
  "list_all (\<lambda>g. name g \<noteq> None) [\<lparr>name = Some ''ui'', count = 2, compileTime = 3\<rparr>]
   \<and> render_table (stat_lines demo_env [\<lparr>name = Some ''ui'', count = 2, compileTime = 3\<rparr>])
       = Inr (join [CHR 0x0A]
               [join [CHR 0x09] [''library'', ''files'', '' time'', ''  avg''],
                join [CHR 0x09] [''ui     '', ''    2'', ''3.0ms'', ''1.5ms'']])"
proof -
  have 1: "list_all (\<lambda>g. name g \<noteq> None) [\<lparr>name = Some ''ui'', count = 2, compileTime = 3\<rparr>]"
    by simp
  have 2: "named_rows demo_env [\<lparr>name = Some ''ui'', count = 2, compileTime = 3\<rparr>]
             = [[''library'', ''files'', ''time'', ''avg''], [''ui'', ''2'', ''3.0ms'', ''1.5ms'']]"
    by (simp add: named_rows_def property_key_def demo_counts demo_durations)
  show ?thesis
    using 1 table_alignment [OF 1, of demo_env]
    by (simp add: 2 aligned_row_def column_width_def)
qed

text \<open>
  Claim C2 as stated puts the spaces before the name and after the numbers; the table has
  them after the name and before the numbers.
\<close>

theorem table_padding_counterexample:
  "render_table (stat_lines demo_env [\<lparr>name = Some ''ui'', count = 2, compileTime = 3\<rparr>])
     = Inr (join [CHR 0x0A]
             [join [CHR 0x09] [''library'', ''files'', '' time'', ''  avg''],
              join [CHR 0x09] [''ui     '', ''    2'', ''3.0ms'', ''1.5ms'']])
   \<and> render_table (stat_lines demo_env [\<lparr>name = Some ''ui'', count = 2, compileTime = 3\<rparr>])
     \<noteq> Inr (join [CHR 0x0A]
             [join [CHR 0x09] [''library'', ''files'', ''time '', ''avg  ''],
              join [CHR 0x09] [''     ui'', ''2    '', ''3.0ms'', ''1.5ms'']])"
  unfolding demo_ui_lines
  by (simp add: render_table_def columnWidths_def width_at_def padStart_def padEnd_def)

lemma demo_manifests: "\<forall>p err. manifest_name demo_env p \<noteq> Inl err"
  by (simp add: demo_env_def)

lemma logStats_result:
  "fst (logStats e ssr sched st) =
     (case rejected (resolve_packages e sched (stats st)) of
        Some err \<Rightarrow> Some err
      | None \<Rightarrow> (case build_table e (r_stats (resolve_packages e sched (stats st))) of
                   Inl err \<Rightarrow> Some err
                 | Inr table \<Rightarrow> None))"
  by (simp add: logStats_def Let_def split: option.splits sum.splits)

lemma demo_run2_stats:
  "stats (run demo_env demo_options False [Start, Load ''/x/A.svelte'', Load ''/x/B.svelte''] demo_state)
     = [demo_stat ''/x/A.svelte'' None 3000 4000, demo_stat ''/x/B.svelte'' None 6000 7000]"
  by (simp add: demo_eval demo_stat_def)

lemma demo_run2_last:
  "lastProgressLog (run demo_env demo_options False [Start, Load ''/x/A.svelte'', Load ''/x/B.svelte''] demo_state)
     = 5000"
  by (simp add: demo_eval demo_stat_def)

lemma demo_unnamed_groups:
  "group_stats (double_add demo_env) [demo_stat ''/x/A.svelte'' None 3000 4000, demo_stat ''/x/B.svelte'' None 6000 7000] []
     = Inr [(''undefined'', \<lparr>name = None, count = 2, compileTime = 2000\<rparr>)]"
  by (simp add: group_stat_def demo_stat_duration demo_stat_fields property_key_def demo_inherited
        add_stat_def demo_double_add Let_def)

lemma demo_unnamed_table:
  "build_table demo_env [demo_stat ''/x/A.svelte'' None 3000 4000, demo_stat ''/x/B.svelte'' None 6000 7000]
     = Inl (TypeError ''Cannot read properties of undefined (reading length)'')"
  unfolding build_table_def demo_unnamed_groups
  by (simp add: Object_values_def demo_not_index sort_groups_def stat_lines_def stat_line_def
        demo_durations demo_counts render_table_def columnWidths_def)

text \<open>
  Claim C3, at two files without a manifest: the lookups find nothing, both stats keep no
  package name, the one group they form has \<^verbatim>\<open>undefined\<close> as its name, and the column
  widths read \<^verbatim>\<open>.length\<close> of that name: \<^verbatim>\<open>onEnd\<close> is rejected with a \<^verbatim>\<open>TypeError\<close> and no
  report is logged, whatever the order in which the lookups complete.
\<close>

theorem report_fails_without_manifest:
  "findClosestPkgJsonPath demo_env ''/x/A.svelte'' = None
   \<and> findClosestPkgJsonPath demo_env ''/x/B.svelte'' = None
   \<and> fst (onEnd demo_env False sched
            (run demo_env demo_options False [Start, Load ''/x/A.svelte'', Load ''/x/B.svelte''] demo_state))
       = Some (TypeError ''Cannot read properties of undefined (reading length)'')"
proof -
  have 1: "findClosestPkgJsonPath demo_env ''/x/A.svelte'' = None"
    "findClosestPkgJsonPath demo_env ''/x/B.svelte'' = None"
    by (simp_all add: demo_env_def startsWith_def)
  have 2: "(demo_stat ''/x/A.svelte'' None 3000 4000)
              \<lparr>packagename := resolved_name demo_env (demo_stat ''/x/A.svelte'' None 3000 4000)\<rparr>
             = demo_stat ''/x/A.svelte'' None 3000 4000"
    "(demo_stat ''/x/B.svelte'' None 6000 7000)
              \<lparr>packagename := resolved_name demo_env (demo_stat ''/x/B.svelte'' None 6000 7000)\<rparr>
             = demo_stat ''/x/B.svelte'' None 6000 7000"
    using 1 by (simp_all add: resolved_name_def demo_stat_def)
  show ?thesis
    using 1
    by (simp add: onEnd_def demo_run2_last logStats_result logProgress_stats demo_run2_stats
          resolve_packages_rejected [OF demo_manifests] resolve_packages_names 2 demo_unnamed_table)
qed

subsection \<open>The preprocessor hooks (claims C6 and C10)\<close>

lemma unsupported_script:
  "\<not> js_includes supportedScriptLangs (attributes_lang b) \<Longrightarrow> script pe b = NoTransformation"
  by (simp add: script_def Let_def)

lemma supported_script:
  assumes "js_includes supportedScriptLangs (attributes_lang b)"
  shows "script pe b =
           (case transformWithEsbuild pe (content b) (filename_or_empty b)
                   (attr_text (attributes_lang b)) of
              Inl err \<Rightarrow> Rejected err
            | Inr (code, m) \<Rightarrow>
                Transformed \<lparr>out_code = code,
                             out_map = mapToRelative pe m (filename_or_empty b),
                             out_dependencies = None\<rparr>)"
  using assms by (simp add: script_def Let_def)

lemma unsupported_style:
  "\<not> js_includes supportedStyleLangs (attributes_lang b) \<Longrightarrow> style pe b st = (NoTransformation, st)"
  by (simp add: style_def Let_def)

lemma unsupported_style_begin:
  "\<not> js_includes supportedStyleLangs (attributes_lang b) \<Longrightarrow>
     style_begin pe b st = (Some NoTransformation, st)"
  by (simp add: style_begin_def)

lemma finish_block_result:
  "finish_block pe b t =
     (case call_transform pe t (content b)
             (filename_or_empty b @ lang_sep @ attr_text (attributes_lang b)) of
        Inl err \<Rightarrow> Rejected err
      | Inr r \<Rightarrow>
          Transformed
            \<lparr>out_code = css_code r,
             out_map = mapToRelative pe
                         (removeLangSuffix pe (css_map r)
                            (lang_sep @ attr_text (attributes_lang b)))
                         (filename_or_empty b),
             out_dependencies =
               map_option (filter (\<lambda>d. \<not> endsWith d (lang_sep @ attr_text (attributes_lang b))))
                 (css_deps r)\<rparr>)"
  by (simp add: finish_block_def Let_def)

lemma finish_block_cases:
  "finish_block pe b t \<noteq> NoTransformation"
  "finish_block pe b t = Rejected err \<longleftrightarrow>
     call_transform pe t (content b)
       (filename_or_empty b @ lang_sep @ attr_text (attributes_lang b)) = Inl err"
  "finish_block pe b t = Transformed res \<longleftrightarrow>
     (\<exists>r. call_transform pe t (content b)
             (filename_or_empty b @ lang_sep @ attr_text (attributes_lang b)) = Inr r
        \<and> res = \<lparr>out_code = css_code r,
                  out_map = mapToRelative pe
                              (removeLangSuffix pe (css_map r)
                                 (lang_sep @ attr_text (attributes_lang b)))
                              (filename_or_empty b),
                  out_dependencies =
                    map_option (filter (\<lambda>d. \<not> endsWith d (lang_sep @ attr_text (attributes_lang b))))
                      (css_deps r)\<rparr>)"
  unfolding finish_block_result by (auto split: sum.splits)

lemma supported_style:
  assumes "js_includes supportedStyleLangs (attributes_lang b)"
  shows "fst (style pe b st) =
           (case ensure_transform pe st of
              Inl err \<Rightarrow> Rejected err
            | Inr (t, st1) \<Rightarrow> finish_block pe b t)"
  using assms by (simp add: style_def finish_block_def Let_def split: sum.splits prod.splits)

lemma supported_style_begin:
  assumes "js_includes supportedStyleLangs (attributes_lang b)"
  shows "fst (style_begin pe b st) =
           map_option (finish_block pe b)
             (case transform st of
                Some t \<Rightarrow> Some t
              | None \<Rightarrow> map_option getCssTransformFn (ready_config st))"
  using assms by (simp add: style_begin_def split: option.splits)

lemma style_resume_result:
  "fst (style_resume pe b st) =
     (case resolveConfig pe (config st) (if node_env_production pe then ''build'' else ''serve'') of
        Inl err \<Rightarrow> Rejected err
      | Inr rc \<Rightarrow> finish_block pe b (getCssTransformFn rc))"
  by (simp add: style_resume_def split: sum.splits)

text \<open>
  A call of the hook during which nothing else happens to the instance is the call up to
  its first \<^verbatim>\<open>await\<close>, followed at once by its rest when it waited.
\<close>

lemma style_uninterrupted:
  "style pe b st =
     (case style_begin pe b st of
        (Some r, st1) \<Rightarrow> (r, st1)
      | (None, st1) \<Rightarrow> style_resume pe b st1)"
  by (simp add: style_def style_begin_def style_resume_def ensure_transform_def choose_config_def
        ready_config_def finish_block_def Let_def
      split: option.splits sum.splits)

lemmas hook_eval = demo_penv_def demo_block_def style_def script_def ensure_transform_def
  choose_config_def viteStyle_def js_includes_def supportedStyleLangs_def supportedScriptLangs_def
  getCssTransformFn_def isResolvedConfig_def lang_sep_def attr_text_def filename_or_empty_def
  Let_def

lemma demo_tags:
  "js_includes supportedStyleLangs (attributes_lang (demo_block ''scss'' text))"
  "\<not> js_includes supportedStyleLangs (attributes_lang (demo_block ''coffee'' text))"
  "\<not> js_includes supportedScriptLangs (attributes_lang (demo_block ''js'' text))"
  "js_includes supportedScriptLangs (attributes_lang (demo_block ''ts'' text))"
  by (simp_all add: js_includes_def supportedStyleLangs_def supportedScriptLangs_def demo_block_def)

lemma demo_ensure:
  "ensure_transform demo_penv (viteStyle (VConfig ''app'' None))
     = Inr (CssTransformFn (VConfig ''app'' (Some (VConfig ''app'' None))),
            (viteStyle (VConfig ''app'' None))
              \<lparr>transform := Some (CssTransformFn (VConfig ''app'' (Some (VConfig ''app'' None))))\<rparr>)"
  by (simp add: ensure_transform_def choose_config_def viteStyle_def isResolvedConfig_def
        getCssTransformFn_def demo_penv_def)

lemma demo_resolve:
  "resolveConfig demo_penv (config (viteStyle (VConfig ''broken'' None)))
     (if node_env_production demo_penv then ''build'' else ''serve'')
     = Inl (JsError ''Error'' ''failed to load config'')"
  by (simp add: demo_penv_def viteStyle_def)

lemma demo_esbuild:
  "transformWithEsbuild demo_penv (content (demo_block ''ts'' ''let a: number''))
     (filename_or_empty (demo_block ''ts'' ''let a: number''))
     (attr_text (attributes_lang (demo_block ''ts'' ''let a: number'')))
     = Inr (''let a: number'', None)"
  by (simp add: demo_penv_def demo_block_def)

lemma demo_css:
  "preprocessCSS demo_penv code f cfg =
     (if code = ''a {'' then Inl (JsError ''CssSyntaxError'' ''Unclosed block'')
      else Inr \<lparr>css_code = code, css_map = Some (''map-'' @ cfg_id cfg), css_deps = None\<rparr>)"
  "content (demo_block lang text) = text"
  by (simp_all add: demo_penv_def demo_block_def)

lemma demo_maps:
  "mapToRelative demo_penv m f = m" "removeLangSuffix demo_penv m suffix = m"
  by (simp_all add: demo_penv_def)

text \<open>
  Claim C6, as the code has it: a language tag outside the supported set (an absent tag
  included) makes the script and the style hook return no transformation, and the style
  instance stays as it is; a supported tag never does. For a supported tag the script hook
  is rejected with the exception of \<^verbatim>\<open>transformWithEsbuild\<close> when that throws, and otherwise
  returns its code with its map relocated. The style hook, in a call that nothing
  interrupts, is rejected with an exception exactly when \<^verbatim>\<open>resolveConfig\<close> throws it while
  the transform is made, or the CSS pipeline throws it on the block when called through
  that transform; it returns a result exactly when both succeed, and the result is then
  the code of the pipeline, its map without the suffix and relocated, and its dependencies
  without those that end with the suffix. The two parts of a call that waits for
  \<^verbatim>\<open>resolveConfig\<close> while other calls run are rejected in the same way: the part up to the
  \<^verbatim>\<open>await\<close> with the exception of the pipeline, called through the transform that is set
  or made there, and the rest with the exception of \<^verbatim>\<open>resolveConfig\<close> or with that of
  the pipeline on the configuration that \<^verbatim>\<open>resolveConfig\<close> gave.
\<close>

theorem lang_membership_decides_passthrough:
  "(\<not> js_includes supportedScriptLangs (attributes_lang b) \<longrightarrow> script pe b = NoTransformation)
   \<and> (js_includes supportedScriptLangs (attributes_lang b) \<longrightarrow>
        script pe b \<noteq> NoTransformation
        \<and> (script pe b = Rejected err \<longleftrightarrow>
             transformWithEsbuild pe (content b) (filename_or_empty b)
               (attr_text (attributes_lang b)) = Inl err)
        \<and> (script pe b = Transformed res \<longleftrightarrow>
             (\<exists>code m. transformWithEsbuild pe (content b) (filename_or_empty b)
                          (attr_text (attributes_lang b)) = Inr (code, m)
                \<and> res = \<lparr>out_code = code,
                          out_map = mapToRelative pe m (filename_or_empty b),
                          out_dependencies = None\<rparr>)))
   \<and> (\<not> js_includes supportedStyleLangs (attributes_lang b) \<longrightarrow>
        style pe b st = (NoTransformation, st)
        \<and> style_begin pe b st = (Some NoTransformation, st))
   \<and> (js_includes supportedStyleLangs (attributes_lang b) \<longrightarrow>
        fst (style pe b st) \<noteq> NoTransformation
        \<and> (fst (style pe b st) = Rejected err \<longleftrightarrow>
             ensure_transform pe st = Inl err
             \<or> (\<exists>t st1. ensure_transform pe st = Inr (t, st1)
                  \<and> call_transform pe t (content b)
                       (filename_or_empty b @ lang_sep @ attr_text (attributes_lang b)) = Inl err))
        \<and> (fst (style pe b st) = Transformed res \<longleftrightarrow>
             (\<exists>t st1 r. ensure_transform pe st = Inr (t, st1)
                \<and> call_transform pe t (content b)
                     (filename_or_empty b @ lang_sep @ attr_text (attributes_lang b)) = Inr r
                \<and> res = \<lparr>out_code = css_code r,
                          out_map = mapToRelative pe
                                      (removeLangSuffix pe (css_map r)
                                         (lang_sep @ attr_text (attributes_lang b)))
                                      (filename_or_empty b),
                          out_dependencies =
                            map_option
                              (filter (\<lambda>d. \<not> endsWith d (lang_sep @ attr_text (attributes_lang b))))
                              (css_deps r)\<rparr>))
        \<and> fst (style_begin pe b st) \<noteq> Some NoTransformation
        \<and> (fst (style_begin pe b st) = Some (Rejected err) \<longleftrightarrow>
             (\<exists>t. (case transform st of
                      Some t' \<Rightarrow> Some t'
                    | None \<Rightarrow> map_option getCssTransformFn (ready_config st)) = Some t
                \<and> call_transform pe t (content b)
                     (filename_or_empty b @ lang_sep @ attr_text (attributes_lang b)) = Inl err))
        \<and> fst (style_resume pe b st) \<noteq> NoTransformation
        \<and> (fst (style_resume pe b st) = Rejected err \<longleftrightarrow>
             resolveConfig pe (config st) (if node_env_production pe then ''build'' else ''serve'')
               = Inl err
             \<or> (\<exists>rc. resolveConfig pe (config st)
                         (if node_env_production pe then ''build'' else ''serve'') = Inr rc
                  \<and> call_transform pe (getCssTransformFn rc) (content b)
                       (filename_or_empty b @ lang_sep @ attr_text (attributes_lang b)) = Inl err)))"
proof (intro conjI impI)
  show "\<not> js_includes supportedScriptLangs (attributes_lang b) \<Longrightarrow> script pe b = NoTransformation"
    by (rule unsupported_script)
  show "\<not> js_includes supportedStyleLangs (attributes_lang b) \<Longrightarrow> style pe b st = (NoTransformation, st)"
    by (rule unsupported_style)
  show "\<not> js_includes supportedStyleLangs (attributes_lang b) \<Longrightarrow>
          style_begin pe b st = (Some NoTransformation, st)"
    by (rule unsupported_style_begin)
next
  assume s: "js_includes supportedScriptLangs (attributes_lang b)"
  note eq = supported_script [OF s, of pe]
  show "script pe b \<noteq> NoTransformation"
    unfolding eq by (simp split: sum.splits prod.splits)
  show "script pe b = Rejected err \<longleftrightarrow>
          transformWithEsbuild pe (content b) (filename_or_empty b)
            (attr_text (attributes_lang b)) = Inl err"
    unfolding eq by (simp split: sum.splits prod.splits)
  show "script pe b = Transformed res \<longleftrightarrow>
          (\<exists>code m. transformWithEsbuild pe (content b) (filename_or_empty b)
                       (attr_text (attributes_lang b)) = Inr (code, m)
             \<and> res = \<lparr>out_code = code,
                       out_map = mapToRelative pe m (filename_or_empty b),
                       out_dependencies = None\<rparr>)"
    unfolding eq by (auto split: sum.splits prod.splits)
next
  assume s: "js_includes supportedStyleLangs (attributes_lang b)"
  note eq = supported_style [OF s, of pe st]
  note beq = supported_style_begin [OF s, of pe st]
  note req = style_resume_result [of pe b st]
  show "fst (style pe b st) \<noteq> NoTransformation"
    unfolding eq by (simp add: finish_block_cases split: sum.splits prod.splits)
  show "fst (style pe b st) = Rejected err \<longleftrightarrow>
          ensure_transform pe st = Inl err
          \<or> (\<exists>t st1. ensure_transform pe st = Inr (t, st1)
               \<and> call_transform pe t (content b)
                    (filename_or_empty b @ lang_sep @ attr_text (attributes_lang b)) = Inl err)"
    unfolding eq by (simp add: finish_block_cases split: sum.splits prod.splits)
  show "fst (style pe b st) = Transformed res \<longleftrightarrow>
          (\<exists>t st1 r. ensure_transform pe st = Inr (t, st1)
             \<and> call_transform pe t (content b)
                  (filename_or_empty b @ lang_sep @ attr_text (attributes_lang b)) = Inr r
             \<and> res = \<lparr>out_code = css_code r,
                       out_map = mapToRelative pe
                                   (removeLangSuffix pe (css_map r)
                                      (lang_sep @ attr_text (attributes_lang b)))
                                   (filename_or_empty b),
                       out_dependencies =
                         map_option
                           (filter (\<lambda>d. \<not> endsWith d (lang_sep @ attr_text (attributes_lang b))))
                           (css_deps r)\<rparr>)"
    unfolding eq by (simp add: finish_block_cases split: sum.splits prod.splits)
  show "fst (style_begin pe b st) \<noteq> Some NoTransformation"
    unfolding beq by (auto simp: finish_block_cases split: option.splits)
  show "fst (style_begin pe b st) = Some (Rejected err) \<longleftrightarrow>
          (\<exists>t. (case transform st of
                   Some t' \<Rightarrow> Some t'
                 | None \<Rightarrow> map_option getCssTransformFn (ready_config st)) = Some t
             \<and> call_transform pe t (content b)
                  (filename_or_empty b @ lang_sep @ attr_text (attributes_lang b)) = Inl err)"
    unfolding beq by (auto simp: finish_block_cases split: option.splits)
  show "fst (style_resume pe b st) \<noteq> NoTransformation"
    unfolding req by (simp add: finish_block_cases split: sum.splits)
  show "fst (style_resume pe b st) = Rejected err \<longleftrightarrow>
          resolveConfig pe (config st) (if node_env_production pe then ''build'' else ''serve'')
            = Inl err
          \<or> (\<exists>rc. resolveConfig pe (config st)
                      (if node_env_production pe then ''build'' else ''serve'') = Inr rc
               \<and> call_transform pe (getCssTransformFn rc) (content b)
                    (filename_or_empty b @ lang_sep @ attr_text (attributes_lang b)) = Inl err)"
    unfolding req by (simp add: finish_block_cases split: sum.splits)
qed


theorem lang_membership_decides_passthrough_witness:
  "js_includes supportedStyleLangs (attributes_lang (demo_block ''scss'' ''a { b: c }''))
   \<and> fst (style demo_penv (demo_block ''scss'' ''a { b: c }'') (viteStyle (VConfig ''app'' None)))
       = Transformed \<lparr>out_code = ''a { b: c }'', out_map = Some ''map-app'', out_dependencies = None\<rparr>
   \<and> js_includes supportedStyleLangs (attributes_lang (demo_block ''scss'' ''a {''))
   \<and> fst (style demo_penv (demo_block ''scss'' ''a {'') (viteStyle (VConfig ''app'' None)))
       = Rejected (JsError ''CssSyntaxError'' ''Unclosed block'')
   \<and> fst (style_resume demo_penv (demo_block ''scss'' ''a {'') (viteStyle (VConfig ''broken'' None)))
       = Rejected (JsError ''Error'' ''failed to load config'')
   \<and> \<not> js_includes supportedStyleLangs (attributes_lang (demo_block ''coffee'' ''a''))
   \<and> style demo_penv (demo_block ''coffee'' ''a'') (viteStyle (VConfig ''app'' None))
       = (NoTransformation, viteStyle (VConfig ''app'' None))
   \<and> \<not> js_includes supportedScriptLangs (attributes_lang (demo_block ''js'' ''a''))
   \<and> script demo_penv (demo_block ''js'' ''a'') = NoTransformation
   \<and> js_includes supportedScriptLangs (attributes_lang (demo_block ''ts'' ''let a: number''))
   \<and> script demo_penv (demo_block ''ts'' ''let a: number'')
       = Transformed \<lparr>out_code = ''let a: number'', out_map = None, out_dependencies = None\<rparr>"
proof -
  let ?st = "viteStyle (VConfig ''app'' None)"
  let ?none = "JsError [] []"
  let ?css = "\<lparr>out_code = ''a { b: c }'', out_map = Some ''map-app'', out_dependencies = None\<rparr>"
  let ?ts = "\<lparr>out_code = ''let a: number'', out_map = None, out_dependencies = None\<rparr>"
  have 1: "fst (style demo_penv (demo_block ''scss'' ''a { b: c }'') ?st) = Transformed ?css"
    using lang_membership_decides_passthrough
        [of "demo_block ''scss'' ''a { b: c }''" demo_penv ?none ?css ?st]
    by (simp add: demo_tags demo_ensure demo_css demo_maps)
  have 2: "fst (style demo_penv (demo_block ''scss'' ''a {'') ?st)
             = Rejected (JsError ''CssSyntaxError'' ''Unclosed block'')"
    using lang_membership_decides_passthrough
        [of "demo_block ''scss'' ''a {''" demo_penv
            "JsError ''CssSyntaxError'' ''Unclosed block''" ?css ?st]
    by (simp add: demo_tags demo_ensure demo_css)
  have 3: "fst (style_resume demo_penv (demo_block ''scss'' ''a {'') (viteStyle (VConfig ''broken'' None)))
             = Rejected (JsError ''Error'' ''failed to load config'')"
    using lang_membership_decides_passthrough
        [of "demo_block ''scss'' ''a {''" demo_penv
            "JsError ''Error'' ''failed to load config''" ?css "viteStyle (VConfig ''broken'' None)"]
    by (simp only: demo_tags demo_resolve) simp
  have 4: "style demo_penv (demo_block ''coffee'' ''a'') ?st = (NoTransformation, ?st)"
    using lang_membership_decides_passthrough
        [of "demo_block ''coffee'' ''a''" demo_penv ?none ?css ?st]
    by (simp add: demo_tags)
  have 5: "script demo_penv (demo_block ''js'' ''a'') = NoTransformation"
    using lang_membership_decides_passthrough
        [of "demo_block ''js'' ''a''" demo_penv ?none ?css ?st]
    by (simp add: demo_tags)
  have 6: "script demo_penv (demo_block ''ts'' ''let a: number'') = Transformed ?ts"
    using lang_membership_decides_passthrough
        [of "demo_block ''ts'' ''let a: number''" demo_penv ?none ?ts ?st]
    by (simp add: demo_tags demo_esbuild demo_maps)
  show ?thesis
    using 1 2 3 4 5 6 by (simp add: demo_tags)
qed

text \<open>
  Claim C6 as stated gives every supported style tag a result; a supported block on which
  \<^verbatim>\<open>preprocessCSS\<close> throws is rejected instead.
\<close>

theorem supported_style_rejected_counterexample:
  "js_includes supportedStyleLangs (attributes_lang (demo_block ''scss'' ''a {''))
   \<and> fst (style demo_penv (demo_block ''scss'' ''a {'') (viteStyle (VConfig ''app'' None)))
       = Rejected (JsError ''CssSyntaxError'' ''Unclosed block'')"
  by (simp add: hook_eval)

lemma style_begin_cached:
  "transform st = Some t \<Longrightarrow> style_begin pe b st = (Some (snd (cached_result pe t b)), st)"
  by (simp add: style_begin_def cached_result_def)

lemma style_step_cached:
  assumes "transform (inst sys) = Some t" and "awaiting sys = []"
  shows "style_step pe sys x =
           (case x of
              StyleBlock b \<Rightarrow> sys\<lparr>settled := settled sys @ [cached_result pe t b]\<rparr>
            | ConfigSettles k \<Rightarrow> sys
            | AssignResolvedConfig v \<Rightarrow> sys\<lparr>inst := (inst sys)\<lparr>resolvedConfig_prop := v\<rparr>\<rparr>)"
  using assms by (cases x) (simp_all add: style_begin_cached cached_result_def)

lemma style_run_cached:
  assumes "transform (inst sys) = Some t" and "awaiting sys = []"
  shows "transform (inst (style_run pe ops sys)) = Some t
         \<and> awaiting (style_run pe ops sys) = []
         \<and> resolutions (style_run pe ops sys) = resolutions sys
         \<and> settled (style_run pe ops sys)
             = settled sys @ map (cached_result pe t) (passed_blocks ops)"
  using assms unfolding style_run_def
proof (induction ops arbitrary: sys)
  case Nil
  then show ?case by simp
next
  case (Cons x ops)
  note step = style_step_cached [OF Cons.prems, of pe x]
  have "transform (inst (style_step pe sys x)) = Some t" "awaiting (style_step pe sys x) = []"
    unfolding step using Cons.prems by (simp_all split: style_op.splits)
  from Cons.IH [OF this] have
    ih: "transform (inst (foldl (style_step pe) (style_step pe sys x) ops)) = Some t"
      "awaiting (foldl (style_step pe) (style_step pe sys x) ops) = []"
      "resolutions (foldl (style_step pe) (style_step pe sys x) ops)
         = resolutions (style_step pe sys x)"
      "settled (foldl (style_step pe) (style_step pe sys x) ops)
         = settled (style_step pe sys x) @ map (cached_result pe t) (passed_blocks ops)"
    by simp_all
  have "resolutions (style_step pe sys x) = resolutions sys"
    unfolding step by (simp split: style_op.splits)
  moreover have "settled (style_step pe sys x) @ map (cached_result pe t) (passed_blocks ops)
                   = settled sys @ map (cached_result pe t) (passed_blocks (x # ops))"
    unfolding step by (cases x) simp_all
  ultimately show ?case
    unfolding foldl_Cons using ih by simp
qed

lemma cached_result_resolveConfig:
  "cached_result (pe\<lparr>resolveConfig := r\<rparr>) t b = cached_result pe t b"
  by (cases t) (simp add: cached_result_def finish_block_def Let_def split: sum.splits)

lemma style_begin_keeps_set:
  "transform st \<noteq> None \<Longrightarrow> transform (snd (style_begin pe b st)) \<noteq> None"
  by (auto simp: style_begin_def)

lemma style_resume_keeps_set:
  "transform st \<noteq> None \<Longrightarrow> transform (snd (style_resume pe b st)) \<noteq> None"
  by (auto simp: style_resume_def split: sum.splits)

lemma style_step_keeps_set:
  assumes "transform (inst sys) \<noteq> None"
  shows "transform (inst (style_step pe sys x)) \<noteq> None"
proof (cases x)
  case (StyleBlock b)
  from style_begin_keeps_set [OF assms, of pe b] show ?thesis
    by (cases "style_begin pe b (inst sys)") (auto simp: StyleBlock split: option.splits)
next
  case (ConfigSettles k)
  from style_resume_keeps_set [OF assms, of pe "awaiting sys ! k"] assms show ?thesis
    by (cases "style_resume pe (awaiting sys ! k) (inst sys)") (auto simp: ConfigSettles)
next
  case (AssignResolvedConfig v)
  with assms show ?thesis by simp
qed

lemma style_run_keeps_set:
  "transform (inst sys) \<noteq> None \<Longrightarrow> transform (inst (style_run pe ops sys)) \<noteq> None"
  unfolding style_run_def
proof (induction ops arbitrary: sys)
  case Nil
  then show ?case by simp
next
  case (Cons x ops)
  have "transform (inst (foldl (style_step pe) (style_step pe sys x) ops)) \<noteq> None"
    by (rule Cons.IH [OF style_step_keeps_set [OF Cons.prems]])
  then show ?case by simp
qed

lemma first_style_block:
  assumes "transform (inst sys) = None" and "js_includes supportedStyleLangs (attributes_lang b)"
  shows "style_step pe sys (StyleBlock b) =
           (case resolvedConfig_prop (inst sys) of
              Some rc \<Rightarrow>
                sys\<lparr>inst := (inst sys)\<lparr>transform := Some (getCssTransformFn rc)\<rparr>,
                    settled := settled sys @ [(b, finish_block pe b (getCssTransformFn rc))]\<rparr>
            | None \<Rightarrow>
                (if isResolvedConfig (config (inst sys))
                 then sys\<lparr>inst := (inst sys)\<lparr>transform := Some (getCssTransformFn (config (inst sys)))\<rparr>,
                          settled := settled sys
                            @ [(b, finish_block pe b (getCssTransformFn (config (inst sys))))]\<rparr>
                 else sys\<lparr>awaiting := awaiting sys @ [b],
                          resolutions := Suc (resolutions sys)\<rparr>))"
  using assms by (simp add: style_begin_def ready_config_def split: option.splits)

lemma config_settles:
  assumes "k < length (awaiting sys)"
  shows "style_step pe sys (ConfigSettles k) =
           (case resolveConfig pe (config (inst sys))
                   (if node_env_production pe then ''build'' else ''serve'') of
              Inl err \<Rightarrow>
                sys\<lparr>awaiting := take k (awaiting sys) @ drop (Suc k) (awaiting sys),
                    settled := settled sys @ [(awaiting sys ! k, Rejected err)]\<rparr>
            | Inr rc \<Rightarrow>
                sys\<lparr>inst := (inst sys)\<lparr>transform := Some (getCssTransformFn rc)\<rparr>,
                    awaiting := take k (awaiting sys) @ drop (Suc k) (awaiting sys),
                    settled := settled sys
                      @ [(awaiting sys ! k,
                          finish_block pe (awaiting sys ! k) (getCssTransformFn rc))]\<rparr>)"
  using assms by (simp add: style_resume_def split: sum.splits)

lemma unsupported_style_block:
  "\<not> js_includes supportedStyleLangs (attributes_lang b) \<Longrightarrow>
     style_step pe sys (StyleBlock b) = sys\<lparr>settled := settled sys @ [(b, NoTransformation)]\<rparr>"
  by (simp add: style_begin_def)

lemma demo_finish:
  "finish_block demo_penv (demo_block ''scss'' text) (CssTransformFn cfg) =
     (if text = ''a {'' then Rejected (JsError ''CssSyntaxError'' ''Unclosed block'')
      else Transformed \<lparr>out_code = text, out_map = Some (''map-'' @ cfg_id cfg),
                         out_dependencies = None\<rparr>)"
  by (simp add: finish_block_def demo_penv_def demo_block_def Let_def)

lemma demo_configs:
  "resolveConfig demo_penv (VConfig ''app'' None) (if node_env_production demo_penv then ''build'' else ''serve'')
     = Inr (VConfig ''app'' (Some (VConfig ''app'' None)))"
  "resolveConfig demo_penv (VConfig ''broken'' None) (if node_env_production demo_penv then ''build'' else ''serve'')
     = Inl (JsError ''Error'' ''failed to load config'')"
  "\<not> isResolvedConfig (VConfig c None)"
  by (simp_all add: demo_penv_def isResolvedConfig_def)

lemmas style_eval = style_run_def style_start_def style_begin_def style_resume_def
  ready_config_def viteStyle_def getCssTransformFn_def demo_tags demo_configs demo_finish

text \<open>
  Claim C10, as the code has it, for every order in which blocks are passed, waiting calls
  go on and \<^verbatim>\<open>__resolvedConfig\<close> is assigned: \<^verbatim>\<open>__resolvedConfig\<close> and the transform start
  unset. Once the transform is set and no call waits for \<^verbatim>\<open>resolveConfig\<close>, whatever
  happens then, the transform stays the same, no call waits, \<^verbatim>\<open>resolveConfig\<close> is not
  called again, and every block passed settles to what the CSS pipeline gives when called
  through that transform (to no transformation for an unsupported tag): the assignments
  to \<^verbatim>\<open>__resolvedConfig\<close> and what \<^verbatim>\<open>resolveConfig\<close> would return make no difference. A
  transform that is set is never unset. A supported block that finds the transform unset
  makes it from \<^verbatim>\<open>__resolvedConfig\<close> when that is set, else from the instance's config
  when it has an \<open>inlineConfig\<close>, and is passed to it; else it calls \<^verbatim>\<open>resolveConfig\<close>
  and waits, the transform still unset. When \<^verbatim>\<open>resolveConfig\<close> settles for a waiting call,
  a rejection is the result of the call and leaves the transform as it is; a configuration
  is made into a transform, which replaces whatever is set by then, and the block is
  passed to it. An unsupported block settles to no transformation and changes nothing
  else.
\<close>

theorem style_transform_fixed_once:
  "resolvedConfig_prop (viteStyle cfg) = None \<and> transform (viteStyle cfg) = None
   \<and> (transform (inst sys) = Some t \<and> awaiting sys = [] \<longrightarrow>
        transform (inst (style_run pe ops sys)) = Some t
        \<and> awaiting (style_run pe ops sys) = []
        \<and> resolutions (style_run pe ops sys) = resolutions sys
        \<and> settled (style_run pe ops sys)
            = settled sys @ map (cached_result pe t) (passed_blocks ops)
        \<and> settled (style_run (pe\<lparr>resolveConfig := r\<rparr>) ops sys) = settled (style_run pe ops sys))
   \<and> (transform (inst sys) \<noteq> None \<longrightarrow> transform (inst (style_run pe ops sys)) \<noteq> None)
   \<and> (transform (inst sys) = None \<and> js_includes supportedStyleLangs (attributes_lang b) \<longrightarrow>
        style_step pe sys (StyleBlock b) =
          (case resolvedConfig_prop (inst sys) of
             Some rc \<Rightarrow>
               sys\<lparr>inst := (inst sys)\<lparr>transform := Some (getCssTransformFn rc)\<rparr>,
                   settled := settled sys @ [(b, finish_block pe b (getCssTransformFn rc))]\<rparr>
           | None \<Rightarrow>
               (if isResolvedConfig (config (inst sys))
                then sys\<lparr>inst := (inst sys)\<lparr>transform := Some (getCssTransformFn (config (inst sys)))\<rparr>,
                         settled := settled sys
                           @ [(b, finish_block pe b (getCssTransformFn (config (inst sys))))]\<rparr>
                else sys\<lparr>awaiting := awaiting sys @ [b],
                         resolutions := Suc (resolutions sys)\<rparr>)))
   \<and> (k < length (awaiting sys) \<longrightarrow>
        style_step pe sys (ConfigSettles k) =
          (case resolveConfig pe (config (inst sys))
                  (if node_env_production pe then ''build'' else ''serve'') of
             Inl err \<Rightarrow>
               sys\<lparr>awaiting := take k (awaiting sys) @ drop (Suc k) (awaiting sys),
                   settled := settled sys @ [(awaiting sys ! k, Rejected err)]\<rparr>
           | Inr rc \<Rightarrow>
               sys\<lparr>inst := (inst sys)\<lparr>transform := Some (getCssTransformFn rc)\<rparr>,
                   awaiting := take k (awaiting sys) @ drop (Suc k) (awaiting sys),
                   settled := settled sys
                     @ [(awaiting sys ! k,
                         finish_block pe (awaiting sys ! k) (getCssTransformFn rc))]\<rparr>))
   \<and> (\<not> js_includes supportedStyleLangs (attributes_lang b) \<longrightarrow>
        style_step pe sys (StyleBlock b) = sys\<lparr>settled := settled sys @ [(b, NoTransformation)]\<rparr>)"
proof (intro conjI impI)
  show "resolvedConfig_prop (viteStyle cfg) = None" "transform (viteStyle cfg) = None"
    by (simp_all add: viteStyle_def)
  show "transform (inst sys) \<noteq> None \<Longrightarrow> transform (inst (style_run pe ops sys)) \<noteq> None"
    by (rule style_run_keeps_set)
  show "k < length (awaiting sys) \<Longrightarrow>
        style_step pe sys (ConfigSettles k) =
          (case resolveConfig pe (config (inst sys))
                  (if node_env_production pe then ''build'' else ''serve'') of
             Inl err \<Rightarrow>
               sys\<lparr>awaiting := take k (awaiting sys) @ drop (Suc k) (awaiting sys),
                   settled := settled sys @ [(awaiting sys ! k, Rejected err)]\<rparr>
           | Inr rc \<Rightarrow>
               sys\<lparr>inst := (inst sys)\<lparr>transform := Some (getCssTransformFn rc)\<rparr>,
                   awaiting := take k (awaiting sys) @ drop (Suc k) (awaiting sys),
                   settled := settled sys
                     @ [(awaiting sys ! k,
                         finish_block pe (awaiting sys ! k) (getCssTransformFn rc))]\<rparr>)"
    by (rule config_settles)
  show "\<not> js_includes supportedStyleLangs (attributes_lang b) \<Longrightarrow>
        style_step pe sys (StyleBlock b) = sys\<lparr>settled := settled sys @ [(b, NoTransformation)]\<rparr>"
    by (rule unsupported_style_block)
next
  assume "transform (inst sys) = None \<and> js_includes supportedStyleLangs (attributes_lang b)"
  then show "style_step pe sys (StyleBlock b) =
          (case resolvedConfig_prop (inst sys) of
             Some rc \<Rightarrow>
               sys\<lparr>inst := (inst sys)\<lparr>transform := Some (getCssTransformFn rc)\<rparr>,
                   settled := settled sys @ [(b, finish_block pe b (getCssTransformFn rc))]\<rparr>
           | None \<Rightarrow>
               (if isResolvedConfig (config (inst sys))
                then sys\<lparr>inst := (inst sys)\<lparr>transform := Some (getCssTransformFn (config (inst sys)))\<rparr>,
                         settled := settled sys
                           @ [(b, finish_block pe b (getCssTransformFn (config (inst sys))))]\<rparr>
                else sys\<lparr>awaiting := awaiting sys @ [b],
                         resolutions := Suc (resolutions sys)\<rparr>))"
    using first_style_block by blast
next
  assume a: "transform (inst sys) = Some t \<and> awaiting sys = []"
  then have 1: "transform (inst sys) = Some t" and 2: "awaiting sys = []" by simp_all
  note c = style_run_cached [OF 1 2]
  show "transform (inst (style_run pe ops sys)) = Some t"
    "awaiting (style_run pe ops sys) = []"
    "resolutions (style_run pe ops sys) = resolutions sys"
    "settled (style_run pe ops sys) = settled sys @ map (cached_result pe t) (passed_blocks ops)"
    using c [of pe ops] by simp_all
  show "settled (style_run (pe\<lparr>resolveConfig := r\<rparr>) ops sys) = settled (style_run pe ops sys)"
    using c [of pe ops] c [of "pe\<lparr>resolveConfig := r\<rparr>" ops]
    by (simp add: cached_result_resolveConfig)
qed

theorem style_transform_fixed_once_witness:
  "style_step demo_penv (style_start (viteStyle (VConfig ''app'' None)))
       (StyleBlock (demo_block ''scss'' ''a { b: c }''))
     = \<lparr>inst = viteStyle (VConfig ''app'' None), awaiting = [demo_block ''scss'' ''a { b: c }''],
        settled = [], resolutions = Suc 0\<rparr>
   \<and> style_step demo_penv
         \<lparr>inst = viteStyle (VConfig ''app'' None), awaiting = [demo_block ''scss'' ''a { b: c }''],
          settled = [], resolutions = Suc 0\<rparr>
         (ConfigSettles 0)
     = \<lparr>inst = (viteStyle (VConfig ''app'' None))
                 \<lparr>transform := Some (CssTransformFn (VConfig ''app'' (Some (VConfig ''app'' None))))\<rparr>,
        awaiting = [],
        settled = [(demo_block ''scss'' ''a { b: c }'',
                    Transformed \<lparr>out_code = ''a { b: c }'', out_map = Some ''map-app'',
                                 out_dependencies = None\<rparr>)],
        resolutions = Suc 0\<rparr>
   \<and> settled (style_run demo_penv
         [AssignResolvedConfig (Some (VConfig ''injected'' (Some (VConfig ''app'' None)))),
          StyleBlock (demo_block ''scss'' ''d { e: f }''),
          StyleBlock (demo_block ''coffee'' ''g''),
          ConfigSettles 0]
         \<lparr>inst = (viteStyle (VConfig ''app'' None))
                   \<lparr>transform := Some (CssTransformFn (VConfig ''app'' (Some (VConfig ''app'' None))))\<rparr>,
          awaiting = [], settled = [], resolutions = Suc 0\<rparr>)
     = [(demo_block ''scss'' ''d { e: f }'',
         Transformed \<lparr>out_code = ''d { e: f }'', out_map = Some ''map-app'',
                      out_dependencies = None\<rparr>),
        (demo_block ''coffee'' ''g'', NoTransformation)]
   \<and> transform (inst (style_run demo_penv
         [AssignResolvedConfig (Some (VConfig ''injected'' (Some (VConfig ''app'' None)))),
          StyleBlock (demo_block ''scss'' ''d { e: f }''),
          StyleBlock (demo_block ''coffee'' ''g''),
          ConfigSettles 0]
         \<lparr>inst = (viteStyle (VConfig ''app'' None))
                   \<lparr>transform := Some (CssTransformFn (VConfig ''app'' (Some (VConfig ''app'' None))))\<rparr>,
          awaiting = [], settled = [], resolutions = Suc 0\<rparr>))
     = Some (CssTransformFn (VConfig ''app'' (Some (VConfig ''app'' None))))
   \<and> resolutions (style_run demo_penv
         [AssignResolvedConfig (Some (VConfig ''injected'' (Some (VConfig ''app'' None)))),
          StyleBlock (demo_block ''scss'' ''d { e: f }''),
          StyleBlock (demo_block ''coffee'' ''g''),
          ConfigSettles 0]
         \<lparr>inst = (viteStyle (VConfig ''app'' None))
                   \<lparr>transform := Some (CssTransformFn (VConfig ''app'' (Some (VConfig ''app'' None))))\<rparr>,
          awaiting = [], settled = [], resolutions = Suc 0\<rparr>)
     = Suc 0
   \<and> style_step demo_penv (style_start (viteStyle (VConfig ''app'' None)))
         (StyleBlock (demo_block ''coffee'' ''g''))
     = \<lparr>inst = viteStyle (VConfig ''app'' None), awaiting = [],
        settled = [(demo_block ''coffee'' ''g'', NoTransformation)], resolutions = 0\<rparr>"
proof -
  let ?cfg = "VConfig ''app'' None"
  let ?t = "CssTransformFn (VConfig ''app'' (Some (VConfig ''app'' None)))"
  let ?a = "demo_block ''scss'' ''a { b: c }''"
  let ?sys1 = "\<lparr>inst = viteStyle ?cfg, awaiting = [?a], settled = [], resolutions = Suc 0\<rparr>"
  let ?sys2 = "\<lparr>inst = (viteStyle ?cfg)\<lparr>transform := Some ?t\<rparr>, awaiting = [], settled = [],
                resolutions = Suc 0\<rparr>"
  let ?ops = "[AssignResolvedConfig (Some (VConfig ''injected'' (Some (VConfig ''app'' None)))),
               StyleBlock (demo_block ''scss'' ''d { e: f }''),
               StyleBlock (demo_block ''coffee'' ''g''),
               ConfigSettles 0]"
  let ?r = "resolveConfig demo_penv"
  let ?sys0 = "style_start (viteStyle ?cfg)"
  let ?g = "demo_block ''coffee'' ''g''"
  have h1: "transform (inst ?sys0) = None \<and> js_includes supportedStyleLangs (attributes_lang ?a)"
    by (simp add: demo_tags style_start_def viteStyle_def)
  have "style_step demo_penv ?sys0 (StyleBlock ?a) =
          (case resolvedConfig_prop (inst ?sys0) of
             Some rc \<Rightarrow>
               ?sys0\<lparr>inst := (inst ?sys0)\<lparr>transform := Some (getCssTransformFn rc)\<rparr>,
                     settled := settled ?sys0 @ [(?a, finish_block demo_penv ?a (getCssTransformFn rc))]\<rparr>
           | None \<Rightarrow>
               (if isResolvedConfig (config (inst ?sys0))
                then ?sys0\<lparr>inst := (inst ?sys0)\<lparr>transform := Some (getCssTransformFn (config (inst ?sys0)))\<rparr>,
                           settled := settled ?sys0
                             @ [(?a, finish_block demo_penv ?a (getCssTransformFn (config (inst ?sys0))))]\<rparr>
                else ?sys0\<lparr>awaiting := awaiting ?sys0 @ [?a],
                           resolutions := Suc (resolutions ?sys0)\<rparr>))"
    using h1 style_transform_fixed_once [of ?cfg ?sys0 ?t demo_penv ?ops ?r ?a 0] by blast
  then have 1: "style_step demo_penv ?sys0 (StyleBlock ?a) = ?sys1"
    by (simp add: style_start_def viteStyle_def demo_configs)
  have h2: "0 < length (awaiting ?sys1)"
    by simp
  have "style_step demo_penv ?sys1 (ConfigSettles 0) =
          (case resolveConfig demo_penv (config (inst ?sys1))
                  (if node_env_production demo_penv then ''build'' else ''serve'') of
             Inl err \<Rightarrow>
               ?sys1\<lparr>awaiting := take 0 (awaiting ?sys1) @ drop (Suc 0) (awaiting ?sys1),
                     settled := settled ?sys1 @ [(awaiting ?sys1 ! 0, Rejected err)]\<rparr>
           | Inr rc \<Rightarrow>
               ?sys1\<lparr>inst := (inst ?sys1)\<lparr>transform := Some (getCssTransformFn rc)\<rparr>,
                     awaiting := take 0 (awaiting ?sys1) @ drop (Suc 0) (awaiting ?sys1),
                     settled := settled ?sys1
                       @ [(awaiting ?sys1 ! 0,
                           finish_block demo_penv (awaiting ?sys1 ! 0) (getCssTransformFn rc))]\<rparr>)"
    using h2 style_transform_fixed_once [of ?cfg ?sys1 ?t demo_penv ?ops ?r ?a 0] by blast
  then have 2: "style_step demo_penv ?sys1 (ConfigSettles 0)
             = ?sys2\<lparr>settled := [(?a, Transformed \<lparr>out_code = ''a { b: c }'',
                                   out_map = Some ''map-app'', out_dependencies = None\<rparr>)]\<rparr>"
    by (simp add: viteStyle_def demo_configs getCssTransformFn_def demo_finish)
  have h3: "transform (inst ?sys2) = Some ?t \<and> awaiting ?sys2 = []"
    by simp
  have c: "transform (inst (style_run demo_penv ?ops ?sys2)) = Some ?t
           \<and> awaiting (style_run demo_penv ?ops ?sys2) = []
           \<and> resolutions (style_run demo_penv ?ops ?sys2) = resolutions ?sys2
           \<and> settled (style_run demo_penv ?ops ?sys2)
               = settled ?sys2 @ map (cached_result demo_penv ?t) (passed_blocks ?ops)"
    using h3 style_transform_fixed_once [of ?cfg ?sys2 ?t demo_penv ?ops ?r ?a 0] by blast
  have 3: "settled (style_run demo_penv ?ops ?sys2)
             = [(demo_block ''scss'' ''d { e: f }'',
                 Transformed \<lparr>out_code = ''d { e: f }'', out_map = Some ''map-app'',
                              out_dependencies = None\<rparr>),
                (?g, NoTransformation)]"
    and 4: "transform (inst (style_run demo_penv ?ops ?sys2)) = Some ?t"
    and 5: "resolutions (style_run demo_penv ?ops ?sys2) = Suc 0"
    using c by (simp_all add: demo_tags cached_result_def demo_finish)
  have h6: "\<not> js_includes supportedStyleLangs (attributes_lang ?g)"
    by (simp add: demo_tags)
  have "style_step demo_penv ?sys0 (StyleBlock ?g)
          = ?sys0\<lparr>settled := settled ?sys0 @ [(?g, NoTransformation)]\<rparr>"
    using h6 style_transform_fixed_once [of ?cfg ?sys0 ?t demo_penv ?ops ?r ?g 0] by blast
  then have 6: "style_step demo_penv ?sys0 (StyleBlock ?g)
             = \<lparr>inst = viteStyle ?cfg, awaiting = [],
                settled = [(?g, NoTransformation)], resolutions = 0\<rparr>"
    by (simp add: style_start_def)
  show ?thesis
    using 1 2 3 4 5 6 by simp
qed

text \<open>
  Claim C10 as stated resolves the configuration at most once and lets the first supported
  block fix the transform. Two first blocks that overlap both call \<^verbatim>\<open>resolveConfig\<close>, and
  both get a result. A block that waits for \<^verbatim>\<open>resolveConfig\<close> while \<^verbatim>\<open>__resolvedConfig\<close>
  is assigned and a second block is passed replaces, when it goes on, the transform that
  the second block has set: the two blocks go through different transforms. And on an
  instance whose configuration cannot be resolved the first supported block is rejected
  and fixes nothing: an assignment to \<^verbatim>\<open>__resolvedConfig\<close> after it decides the transform
  of the next block.
\<close>

theorem style_first_block_counterexample:
  "resolutions (style_run demo_penv
        [StyleBlock (demo_block ''scss'' ''a { b: c }''),
         StyleBlock (demo_block ''scss'' ''d { e: f }''),
         ConfigSettles 0, ConfigSettles 0]
        (style_start (viteStyle (VConfig ''app'' None))))
     = 2
   \<and> settled (style_run demo_penv
        [StyleBlock (demo_block ''scss'' ''a { b: c }''),
         StyleBlock (demo_block ''scss'' ''d { e: f }''),
         ConfigSettles 0, ConfigSettles 0]
        (style_start (viteStyle (VConfig ''app'' None))))
     = [(demo_block ''scss'' ''a { b: c }'',
         Transformed \<lparr>out_code = ''a { b: c }'', out_map = Some ''map-app'',
                      out_dependencies = None\<rparr>),
        (demo_block ''scss'' ''d { e: f }'',
         Transformed \<lparr>out_code = ''d { e: f }'', out_map = Some ''map-app'',
                      out_dependencies = None\<rparr>)]
   \<and> transform (inst (style_run demo_penv
        [StyleBlock (demo_block ''scss'' ''a { b: c }''),
         AssignResolvedConfig (Some (VConfig ''injected'' (Some (VConfig ''app'' None)))),
         StyleBlock (demo_block ''scss'' ''d { e: f }'')]
        (style_start (viteStyle (VConfig ''app'' None)))))
     = Some (CssTransformFn (VConfig ''injected'' (Some (VConfig ''app'' None))))
   \<and> transform (inst (style_run demo_penv
        [StyleBlock (demo_block ''scss'' ''a { b: c }''),
         AssignResolvedConfig (Some (VConfig ''injected'' (Some (VConfig ''app'' None)))),
         StyleBlock (demo_block ''scss'' ''d { e: f }''),
         ConfigSettles 0]
        (style_start (viteStyle (VConfig ''app'' None)))))
     = Some (CssTransformFn (VConfig ''app'' (Some (VConfig ''app'' None))))
   \<and> settled (style_run demo_penv
        [StyleBlock (demo_block ''scss'' ''a { b: c }''),
         AssignResolvedConfig (Some (VConfig ''injected'' (Some (VConfig ''app'' None)))),
         StyleBlock (demo_block ''scss'' ''d { e: f }''),
         ConfigSettles 0]
        (style_start (viteStyle (VConfig ''app'' None))))
     = [(demo_block ''scss'' ''d { e: f }'',
         Transformed \<lparr>out_code = ''d { e: f }'', out_map = Some ''map-injected'',
                      out_dependencies = None\<rparr>),
        (demo_block ''scss'' ''a { b: c }'',
         Transformed \<lparr>out_code = ''a { b: c }'', out_map = Some ''map-app'',
                      out_dependencies = None\<rparr>)]
   \<and> settled (style_run demo_penv
        [StyleBlock (demo_block ''scss'' ''a { b: c }''),
         ConfigSettles 0,
         AssignResolvedConfig (Some (VConfig ''injected'' (Some (VConfig ''app'' None)))),
         StyleBlock (demo_block ''scss'' ''d { e: f }'')]
        (style_start (viteStyle (VConfig ''broken'' None))))
     = [(demo_block ''scss'' ''a { b: c }'', Rejected (JsError ''Error'' ''failed to load config'')),
        (demo_block ''scss'' ''d { e: f }'',
         Transformed \<lparr>out_code = ''d { e: f }'', out_map = Some ''map-injected'',
                      out_dependencies = None\<rparr>)]
   \<and> transform (inst (style_run demo_penv
        [StyleBlock (demo_block ''scss'' ''a { b: c }''),
         ConfigSettles 0]
        (style_start (viteStyle (VConfig ''broken'' None)))))
     = None"
  by (simp add: style_eval)

end
